theory Spec2Isabelle
  imports Main "HOL-Library.AList"
begin

section \<open>The WebKit Browser, BrowserContext and target lifecycle (src/webkit/Browser.ts)\<close>

text \<open>
  The development embeds the classes \<open>Browser\<close> and \<open>BrowserContext\<close> of
  \<open>src/webkit/Browser.ts\<close>. JavaScript objects are compared by identity, so a Target lives
  in a store (\<open>targetObjs\<close>, addressed by a reference) and the registry \<open>_targets\<close> maps a
  target id to a reference. A \<open>Map\<close> keeps its insertion order, so both registries are
  association lists with the behaviour of \<open>Map.set\<close> (\<open>AList.update\<close>) and
  \<open>Map.delete\<close> (\<open>AList.delete\<close>). An \<open>async\<close> function is split at each
  \<open>await\<close>: the synchronous prefix, and one function per continuation, which runs on the
  state it finds when it is resumed. Everything the Browser does to its collaborators
  (commands sent over the Connection, events emitted, callbacks invoked) and every
  registry update is appended to \<open>trace\<close> in program order.

  A leading underscore is not an Isabelle identifier: the fields \<open>_targets\<close>,
  \<open>_contexts\<close>, \<open>_defaultContext\<close>, \<open>_pagePromise\<close> and \<open>_id\<close> are
  \<open>targets\<close>, \<open>contexts\<close>, \<open>defaultContext\<close>, \<open>pagePromise\<close> and \<open>ctxId\<close>, and a
  method \<open>C.m\<close> or \<open>C._m\<close> is \<open>C_m\<close>.
\<close>

subsection \<open>Errors\<close>

datatype error =
    TypeError
    \<comment> \<open>the runtime's error for reading a property of \<open>undefined\<close> or \<open>null\<close>\<close>
  | ProtocolError string
    \<comment> \<open>a rejection of \<open>Connection.send\<close>, passed on as it is\<close>
  | AssertionError string
    \<comment> \<open>\<open>assert(value, message)\<close> with a falsy value\<close>
  | TimeoutError string int
    \<comment> \<open>the task name and the bound in milliseconds\<close>
  | PageError string
    \<comment> \<open>a rejection of a Page materialization\<close>

type_synonym 'a result = "error + 'a"

text \<open>The outcome of running an \<open>async\<close> function up to its next \<open>await\<close>.\<close>

datatype ('a, 'k) async = Done 'a | Failed error | Suspended 'k

subsection \<open>Data model\<close>

text \<open>
  The table \<open>Events\<close> of \<open>./events\<close> is not part of the sources at hand; the functions
  below take it as a parameter.
\<close>

record events =
  Browser_TargetCreated :: string
  Browser_TargetDestroyed :: string
  Browser_TargetChanged :: string
  BrowserContext_TargetCreated :: string
  BrowserContext_TargetDestroyed :: string
  BrowserContext_TargetChanged :: string

text \<open>
  A BrowserContext has two fields, \<open>_browser\<close> and \<open>_id\<close>, and neither is ever
  reassigned: the object is its identity \<open>ctxOid\<close> and its \<open>_id\<close> (\<open>None\<close> when the
  constructor got no \<open>contextId\<close>).
\<close>

record browserContext =
  ctxOid :: nat
  ctxId :: "string option"

record targetInfo =
  targetId :: string
  browserContextId :: "string option"
  targetType :: string

text \<open>
  Modelled from the spec: the class \<open>Target\<close> of \<open>./Target\<close>, which is not part of
  the sources at hand. The record has the fields Browser.ts reads and writes: the
  \<open>targetInfo\<close> and the context handed to the constructor, and \<open>_pagePromise\<close>, a
  reference to a promise or \<open>None\<close> for \<open>null\<close>, which it is until the Page is first
  requested.
\<close>

record target =
  info :: targetInfo
  browserContext :: browserContext
  pagePromise :: "nat option"

text \<open>A promise for a Page: pending, fulfilled with a Page (or with \<open>null\<close>), or rejected.\<close>

datatype promiseState = PagePending | PageFulfilled "nat option" | PageRejected error

text \<open>
  The promise a \<open>waitForTarget\<close> call awaits in its \<open>try\<close> block, the listener
  \<open>check\<close> it registers, and the closure the call keeps alive: the predicate, the timer
  armed by \<open>helper.waitWithTimeout\<close> (task name and bound), and the awaited promise.
\<close>

datatype waitState = Pending | Resolved nat | Rejected error

datatype listener = Check nat

record waiter =
  predicate :: "nat \<Rightarrow> target \<Rightarrow> bool"
  timer :: "(string \<times> int) option"
  awaited :: waitState

datatype emitter = OnBrowser | OnContext nat

datatype action =
    Send string "string option"
    \<comment> \<open>\<open>_connection.send(method, {browserContextId})\<close>\<close>
  | Session string
    \<comment> \<open>\<open>_connection.session(targetId)\<close>\<close>
  | SwapTargetOnNavigation nat string "nat option"
    \<comment> \<open>\<open>page._swapTargetOnNavigation(session of the id, target)\<close>\<close>
  | Emit emitter string nat
    \<comment> \<open>\<open>emitter.emit(name, target)\<close>\<close>
  | ClosedCallback nat
    \<comment> \<open>\<open>target._closedCallback()\<close>\<close>
  | TargetsSet string nat
  | TargetsDelete string
  | ContextsSet string nat
  | ContextsDelete "string option"

record browser =
  defaultContext :: browserContext
  contexts :: "(string \<times> browserContext) list"
  targets :: "(string \<times> nat) list"
  targetObjs :: "nat \<Rightarrow> target"
  nextTarget :: nat
  nextContext :: nat
  promises :: "nat \<Rightarrow> promiseState"
  nextPromise :: nat
  listeners :: "(string \<times> listener) list"
  waiters :: "nat \<Rightarrow> waiter"
  nextWaiter :: nat
  trace :: "action list"

text \<open>
  The constructor: no target, no created context, and the default context, built with no
  \<open>contextId\<close>. The stores hold nothing that is reachable yet.
\<close>

definition Browser_create :: browser where
  "Browser_create =
     \<lparr> defaultContext = \<lparr> ctxOid = 0, ctxId = None \<rparr>,
       contexts = [],
       targets = [],
       targetObjs = (\<lambda>_. \<lparr> info = \<lparr> targetId = [], browserContextId = None, targetType = [] \<rparr>,
                             browserContext = \<lparr> ctxOid = 0, ctxId = None \<rparr>,
                             pagePromise = None \<rparr>),
       nextTarget = 0,
       nextContext = 1,
       promises = (\<lambda>_. PagePending),
       nextPromise = 0,
       listeners = [],
       waiters = (\<lambda>_. \<lparr> predicate = (\<lambda>_ _. False), timer = None, awaited = Pending \<rparr>),
       nextWaiter = 0,
       trace = [] \<rparr>"

definition record_action :: "action \<Rightarrow> browser \<Rightarrow> browser" where
  "record_action a s = s\<lparr> trace := trace s @ [a] \<rparr>"

subsection \<open>The event emitter of the Browser\<close>

text \<open>
  \<open>check\<close> (Browser.ts, lines 133 to 136) resolves \<open>targetPromise\<close> when the predicate
  holds; resolving a promise that is settled already does nothing. A predicate is a total
  function of the Target it is given, without effects. The listeners in the state are the
  \<open>check\<close> closures of \<open>waitForTarget\<close> calls; what other listeners get is the
  emission, which the trace records.
\<close>

definition resolve :: "nat \<Rightarrow> nat \<Rightarrow> browser \<Rightarrow> browser" where
  "resolve w t s =
     (if awaited (waiters s w) = Pending
      then s\<lparr> waiters := (waiters s)(w := (waiters s w)\<lparr> awaited := Resolved t \<rparr>) \<rparr>
      else s)"

definition check :: "nat \<Rightarrow> nat \<Rightarrow> browser \<Rightarrow> browser" where
  "check w t s = (if predicate (waiters s w) t (targetObjs s t) then resolve w t s else s)"

fun call_listener :: "listener \<Rightarrow> nat \<Rightarrow> browser \<Rightarrow> browser" where
  "call_listener (Check w) t s = check w t s"

text \<open>\<open>emit\<close> calls the listeners registered under the name, in the order of registration.\<close>

definition listeners_of :: "string \<Rightarrow> browser \<Rightarrow> listener list" where
  "listeners_of name s = map snd (filter (\<lambda>nl. fst nl = name) (listeners s))"

definition Browser_emit :: "string \<Rightarrow> nat \<Rightarrow> browser \<Rightarrow> browser" where
  "Browser_emit name t s =
     fold (\<lambda>l. call_listener l t) (listeners_of name s) (record_action (Emit OnBrowser name t) s)"

definition BrowserContext_emit :: "browserContext \<Rightarrow> string \<Rightarrow> nat \<Rightarrow> browser \<Rightarrow> browser" where
  "BrowserContext_emit c name t s = record_action (Emit (OnContext (ctxOid c)) name t) s"

subsection \<open>Lifecycle notifications\<close>

text \<open>A string is truthy when it is neither \<open>undefined\<close> nor empty.\<close>

fun truthy :: "string option \<Rightarrow> bool" where
  "truthy None = False"
| "truthy (Some x) = (x \<noteq> [])"

text \<open>\<open>_onTargetCreated\<close>, lines 145 to 162.\<close>

definition Browser_onTargetCreated :: "events \<Rightarrow> targetInfo \<Rightarrow> browser \<Rightarrow> unit result \<times> browser" where
  "Browser_onTargetCreated ev ti s =
     (let context0 = (case browserContextId ti of
                        None \<Rightarrow> None
                      | Some cid \<Rightarrow> if truthy (Some cid) then map_of (contexts s) cid else None);
          context = (case context0 of None \<Rightarrow> defaultContext s | Some c \<Rightarrow> c);
          t = nextTarget s;
          s1 = s\<lparr> targetObjs := (targetObjs s)(t := \<lparr> info = ti, browserContext = context,
                                                    pagePromise = None \<rparr>),
                  nextTarget := Suc t \<rparr>;
          s2 = record_action (TargetsSet (targetId ti) t)
                 (s1\<lparr> targets := AList.update (targetId ti) t (targets s1) \<rparr>);
          s3 = Browser_emit (Browser_TargetCreated ev) t s2
      in (Inr (), BrowserContext_emit context (BrowserContext_TargetCreated ev) t s3))"

text \<open>
  \<open>_onTargetDestroyed\<close>, lines 164 to 170. With an id that is not registered,
  \<open>target\<close> is \<open>undefined\<close> and line 167 throws, after the \<open>delete\<close> of line 166.
\<close>

definition Browser_onTargetDestroyed :: "events \<Rightarrow> string \<Rightarrow> browser \<Rightarrow> unit result \<times> browser" where
  "Browser_onTargetDestroyed ev tid s =
     (let target = map_of (targets s) tid;
          s1 = record_action (TargetsDelete tid) (s\<lparr> targets := AList.delete tid (targets s) \<rparr>)
      in case target of
           None \<Rightarrow> (Inl TypeError, s1)
         | Some t \<Rightarrow>
             (let s2 = record_action (ClosedCallback t) s1;
                  s3 = Browser_emit (Browser_TargetDestroyed ev) t s2
              in (Inr (), BrowserContext_emit (browserContext (targetObjs s3 t))
                            (BrowserContext_TargetDestroyed ev) t s3)))"

text \<open>
  \<open>_onTargetChanged\<close>, lines 183 to 186. The event emitted on the Browser is named by
  \<open>Events.BrowserContext.TargetChanged\<close>, as in the source.
\<close>

definition Browser_onTargetChanged :: "events \<Rightarrow> nat \<Rightarrow> browser \<Rightarrow> unit result \<times> browser" where
  "Browser_onTargetChanged ev t s =
     (let s1 = Browser_emit (BrowserContext_TargetChanged ev) t s
      in (Inr (), BrowserContext_emit (browserContext (targetObjs s1 t))
                    (BrowserContext_TargetChanged ev) t s1))"

subsection \<open>The provisional-target commit\<close>

text \<open>
  \<open>_onProvisionalTargetCommitted\<close>, lines 172 to 181, has one \<open>await\<close>. Up to it the
  handler only reads: it throws when the old id is not registered (\<open>oldTarget\<close> is
  \<open>undefined\<close>), returns when the old Target has no \<open>_pagePromise\<close>, and otherwise waits
  for that promise, keeping \<open>oldTarget\<close> and \<open>newTargetId\<close>.
\<close>

datatype commitK = CommitK (k_oldTarget: nat) (k_awaited: nat) (k_newTargetId: string)

definition Browser_onProvisionalTargetCommitted ::
  "string \<Rightarrow> string \<Rightarrow> browser \<Rightarrow> (unit, commitK) async \<times> browser" where
  "Browser_onProvisionalTargetCommitted oldTargetId newTargetId s =
     (case map_of (targets s) oldTargetId of
        None \<Rightarrow> (Failed TypeError, s)
      | Some oldTarget \<Rightarrow>
          (case pagePromise (targetObjs s oldTarget) of
             None \<Rightarrow> (Done (), s)
           | Some p \<Rightarrow> (Suspended (CommitK oldTarget p newTargetId), s)))"

text \<open>
  The continuation, lines 176 to 181, on the state at the time the awaited promise is
  settled. A rejection is rethrown by the \<open>await\<close>. Line 179 throws when the promise was
  fulfilled with \<open>null\<close>, and line 180 throws when the new id is not registered, after the
  call of line 179. Line 180 reads \<open>oldTarget._pagePromise\<close> again.
\<close>

definition Browser_onProvisionalTargetCommitted_resume ::
  "commitK \<Rightarrow> browser \<Rightarrow> (unit, commitK) async \<times> browser" where
  "Browser_onProvisionalTargetCommitted_resume k s =
     (case promises s (k_awaited k) of
        PagePending \<Rightarrow> (Suspended k, s)
      | PageRejected e \<Rightarrow> (Failed e, s)
      | PageFulfilled page \<Rightarrow>
          (let newTarget = map_of (targets s) (k_newTargetId k);
               s1 = record_action (Session (k_newTargetId k)) s
           in case page of
                None \<Rightarrow> (Failed TypeError, s1)
              | Some pg \<Rightarrow>
                  (let s2 = record_action (SwapTargetOnNavigation pg (k_newTargetId k) newTarget) s1
                   in case newTarget of
                        None \<Rightarrow> (Failed TypeError, s2)
                      | Some nt \<Rightarrow>
                          (Done (),
                           s2\<lparr> targetObjs := (targetObjs s2)
                                 (nt := (targetObjs s2 nt)
                                    \<lparr> pagePromise := pagePromise (targetObjs s2 (k_oldTarget k)) \<rparr>) \<rparr>))))"

text \<open>
  Modelled from the spec: \<open>Target.page()\<close> of \<open>./Target\<close>, which is not part of the
  sources at hand. Only a target of type "page" materializes a Page; the first request
  creates the one promise of the Target (pending until the Page is ready), and every later
  request gets the promise the Target holds.
\<close>

definition Target_page :: "nat \<Rightarrow> browser \<Rightarrow> nat option \<times> browser" where
  "Target_page t s =
     (if targetType (info (targetObjs s t)) = ''page'' \<and> pagePromise (targetObjs s t) = None
      then (let p = nextPromise s
            in (Some p,
                s\<lparr> promises := (promises s)(p := PagePending),
                   nextPromise := Suc p,
                   targetObjs := (targetObjs s)(t := (targetObjs s t)\<lparr> pagePromise := Some p \<rparr>) \<rparr>))
      else (pagePromise (targetObjs s t), s))"

text \<open>The request \<open>page()\<close> against a target id: the Target the registry holds under it.\<close>

definition page_of_targetId :: "string \<Rightarrow> browser \<Rightarrow> (nat option \<times> browser) option" where
  "page_of_targetId tid s =
     (case map_of (targets s) tid of None \<Rightarrow> None | Some t \<Rightarrow> Some (Target_page t s))"

text \<open>The Page materialization of a promise settles: a settled promise stays as it is.\<close>

definition settle_page :: "nat \<Rightarrow> nat option result \<Rightarrow> browser \<Rightarrow> browser" where
  "settle_page p r s =
     (if promises s p = PagePending
      then s\<lparr> promises := (promises s)
                (p := (case r of Inl e \<Rightarrow> PageRejected e | Inr pg \<Rightarrow> PageFulfilled pg)) \<rparr>
      else s)"

text \<open>\<open>await\<close> of a Page promise.\<close>

definition await_page :: "nat \<Rightarrow> browser \<Rightarrow> (nat option, nat) async" where
  "await_page p s =
     (case promises s p of
        PagePending \<Rightarrow> Suspended p
      | PageFulfilled pg \<Rightarrow> Done pg
      | PageRejected e \<Rightarrow> Failed e)"

subsection \<open>Contexts and pages\<close>

text \<open>
  \<open>createIncognitoBrowserContext\<close>, lines 79 to 84: the command is sent, and the
  continuation runs on the answer of the Connection, its rejection or the
  \<open>browserContextId\<close> it resolved with.
\<close>

definition Browser_createIncognitoBrowserContext :: "browser \<Rightarrow> browser" where
  "Browser_createIncognitoBrowserContext s = record_action (Send ''Browser.createContext'' None) s"

definition Browser_createIncognitoBrowserContext_resume ::
  "string result \<Rightarrow> browser \<Rightarrow> browserContext result \<times> browser" where
  "Browser_createIncognitoBrowserContext_resume response s =
     (case response of
        Inl e \<Rightarrow> (Inl e, s)
      | Inr cid \<Rightarrow>
          (let context = \<lparr> ctxOid = nextContext s, ctxId = Some cid \<rparr>;
               s1 = s\<lparr> nextContext := Suc (nextContext s) \<rparr>
           in (Inr context,
               record_action (ContextsSet cid (ctxOid context))
                 (s1\<lparr> contexts := AList.update cid context (contexts s1) \<rparr>))))"

definition Browser_browserContexts :: "browser \<Rightarrow> browserContext list" where
  "Browser_browserContexts s = defaultContext s # map snd (contexts s)"

definition Browser_defaultBrowserContext :: "browser \<Rightarrow> browserContext" where
  "Browser_defaultBrowserContext s = defaultContext s"

text \<open>\<open>_disposeContext\<close>, lines 94 to 97.\<close>

definition Browser_disposeContext :: "string option \<Rightarrow> browser \<Rightarrow> browser" where
  "Browser_disposeContext cid s = record_action (Send ''Browser.deleteContext'' cid) s"

definition Browser_disposeContext_resume ::
  "string option \<Rightarrow> unit result \<Rightarrow> browser \<Rightarrow> unit result \<times> browser" where
  "Browser_disposeContext_resume cid0 response s =
     (case response of
        Inl e \<Rightarrow> (Inl e, s)
      | Inr _ \<Rightarrow>
          (Inr (),
           record_action (ContextsDelete cid0)
             (s\<lparr> contexts := (case cid0 of
                                 None \<Rightarrow> contexts s
                               | Some cid \<Rightarrow> AList.delete cid (contexts s)) \<rparr>)))"

text \<open>
  \<open>_createPageInContext\<close>, lines 103 to 107: the command is sent; the first
  continuation runs on the answer, looks the target up and calls \<open>page()\<close> on it, which
  throws when the lookup gave \<open>undefined\<close>; the second one is the \<open>await\<close> of the Page.
  \<open>newPage\<close> of the Browser and of a BrowserContext hand over the \<open>_id\<close> of a context.
\<close>

definition Browser_createPageInContext :: "string option \<Rightarrow> browser \<Rightarrow> browser" where
  "Browser_createPageInContext cid s = record_action (Send ''Browser.createPage'' cid) s"

definition Browser_createPageInContext_resume ::
  "string result \<Rightarrow> browser \<Rightarrow> (nat option, nat) async \<times> browser" where
  "Browser_createPageInContext_resume response s =
     (case response of
        Inl e \<Rightarrow> (Failed e, s)
      | Inr tid \<Rightarrow>
          (case map_of (targets s) tid of
             None \<Rightarrow> (Failed TypeError, s)
           | Some t \<Rightarrow>
               (case Target_page t s of
                  (None, s1) \<Rightarrow> (Done None, s1)
                | (Some p, s1) \<Rightarrow> (await_page p s1, s1))))"

definition Browser_newPage :: "browser \<Rightarrow> browser" where
  "Browser_newPage s = Browser_createPageInContext (ctxId (defaultContext s)) s"

definition BrowserContext_newPage :: "browserContext \<Rightarrow> browser \<Rightarrow> browser" where
  "BrowserContext_newPage c s = Browser_createPageInContext (ctxId c) s"

definition BrowserContext_isIncognito :: "browserContext \<Rightarrow> bool" where
  "BrowserContext_isIncognito c = truthy (ctxId c)"

text \<open>
  Modelled from the spec: \<open>assert\<close> of \<open>../helper\<close>, which is not part of the
  sources at hand. Closing the default context fails with a precondition error, so
  \<open>assert(value, message)\<close> throws an error carrying the message when the value is falsy.
\<close>

definition assert :: "bool \<Rightarrow> string \<Rightarrow> error option" where
  "assert v message = (if v then None else Some (AssertionError message))"

text \<open>
  \<open>BrowserContext.close\<close>, lines 241 to 244: up to the \<open>await\<close> inside
  \<open>_disposeContext\<close>. The continuation is \<open>Browser_disposeContext_resume\<close>.
\<close>

definition BrowserContext_close ::
  "browserContext \<Rightarrow> browser \<Rightarrow> (unit, string option) async \<times> browser" where
  "BrowserContext_close c s =
     (case assert (truthy (ctxId c)) ''Non-incognito profiles cannot be closed!'' of
        Some e \<Rightarrow> (Failed e, s)
      | None \<Rightarrow> (Suspended (ctxId c), Browser_disposeContext (ctxId c) s))"

subsection \<open>Waiting for a target\<close>

definition Browser_targets :: "browser \<Rightarrow> nat list" where
  "Browser_targets s = map snd (targets s)"

definition BrowserContext_targets :: "browserContext \<Rightarrow> browser \<Rightarrow> nat list" where
  "BrowserContext_targets c s =
     filter (\<lambda>t. ctxOid (browserContext (targetObjs s t)) = ctxOid c) (Browser_targets s)"

text \<open>
  \<open>on\<close> appends a listener; \<open>removeListener\<close> removes the instance added last under
  that name, if there is one.
\<close>

definition remove_last :: "'a \<Rightarrow> 'a list \<Rightarrow> 'a list" where
  "remove_last x xs = rev (remove1 x (rev xs))"

definition Browser_on :: "string \<Rightarrow> listener \<Rightarrow> browser \<Rightarrow> browser" where
  "Browser_on name l s = s\<lparr> listeners := listeners s @ [(name, l)] \<rparr>"

definition Browser_removeListener :: "string \<Rightarrow> listener \<Rightarrow> browser \<Rightarrow> browser" where
  "Browser_removeListener name l s = s\<lparr> listeners := remove_last (name, l) (listeners s) \<rparr>"

text \<open>
  Modelled from the spec: \<open>helper.waitWithTimeout\<close> of \<open>../helper\<close>, which is not part
  of the sources at hand. The promise it returns is a race between the given promise and a
  timer of the given bound, which raises a TimeoutError that names the task and the bound:
  the call arms the timer of the waiter.
\<close>

definition waitWithTimeout :: "nat \<Rightarrow> string \<Rightarrow> int \<Rightarrow> browser \<Rightarrow> browser" where
  "waitWithTimeout w taskName timeout s =
     s\<lparr> waiters := (waiters s)(w := (waiters s w)\<lparr> timer := Some (taskName, timeout) \<rparr>) \<rparr>"

text \<open>
  Modelled from the spec: the timer of \<open>helper.waitWithTimeout\<close>. When it expires while
  the race is undecided, the race is lost with the TimeoutError; a waiter without a timer
  and a settled race are left alone. Real time is not modelled: the expiry is an event.
\<close>

definition timer_expires :: "nat \<Rightarrow> browser \<Rightarrow> browser" where
  "timer_expires w s =
     (case timer (waiters s w) of
        None \<Rightarrow> s
      | Some (taskName, timeout) \<Rightarrow>
          (if awaited (waiters s w) = Pending
           then s\<lparr> waiters := (waiters s)
                     (w := (waiters s w)\<lparr> awaited := Rejected (TimeoutError taskName timeout) \<rparr>) \<rparr>
           else s))"

text \<open>
  \<open>waitForTarget\<close>, lines 113 to 137, up to the \<open>await\<close>. The option \<open>timeout\<close> is
  \<open>None\<close> when the caller gave none (a number of milliseconds is an integer here). A
  fresh waiter stands for the closure of the call.
\<close>

definition Browser_waitForTarget ::
  "events \<Rightarrow> (nat \<Rightarrow> target \<Rightarrow> bool) \<Rightarrow> int option \<Rightarrow> browser \<Rightarrow> (nat, nat) async \<times> browser" where
  "Browser_waitForTarget ev pred options_timeout s =
     (let timeout = (case options_timeout of None \<Rightarrow> 30000 | Some t \<Rightarrow> t);
          existingTarget = find (\<lambda>t. pred t (targetObjs s t)) (Browser_targets s)
      in case existingTarget of
           Some t \<Rightarrow> (Done t, s)
         | None \<Rightarrow>
             (let w = nextWaiter s;
                  s1 = s\<lparr> waiters := (waiters s)
                            (w := \<lparr> predicate = pred, timer = None, awaited = Pending \<rparr>),
                          nextWaiter := Suc w \<rparr>;
                  s2 = Browser_on (Browser_TargetCreated ev) (Check w) s1;
                  s3 = Browser_on (Browser_TargetChanged ev) (Check w) s2
              in (Suspended w,
                  if timeout = 0 then s3 else waitWithTimeout w ''target'' timeout s3)))"

text \<open>
  The continuation: once the awaited promise is settled, the \<open>finally\<close> block removes
  both listeners, and the call returns the target or throws the rejection.
\<close>

definition waitForTarget_finally :: "events \<Rightarrow> nat \<Rightarrow> browser \<Rightarrow> browser" where
  "waitForTarget_finally ev w s =
     Browser_removeListener (Browser_TargetChanged ev) (Check w)
       (Browser_removeListener (Browser_TargetCreated ev) (Check w) s)"

definition Browser_waitForTarget_resume ::
  "events \<Rightarrow> nat \<Rightarrow> browser \<Rightarrow> (nat, nat) async \<times> browser" where
  "Browser_waitForTarget_resume ev w s =
     (case awaited (waiters s w) of
        Pending \<Rightarrow> (Suspended w, s)
      | Resolved t \<Rightarrow> (Done t, waitForTarget_finally ev w s)
      | Rejected e \<Rightarrow> (Failed e, waitForTarget_finally ev w s))"

text \<open>\<open>BrowserContext.waitForTarget\<close>, lines 216 to 218.\<close>

definition BrowserContext_waitForTarget ::
  "events \<Rightarrow> browserContext \<Rightarrow> (nat \<Rightarrow> target \<Rightarrow> bool) \<Rightarrow> int option \<Rightarrow> browser
     \<Rightarrow> (nat, nat) async \<times> browser" where
  "BrowserContext_waitForTarget ev c pred options_timeout s =
     Browser_waitForTarget ev (\<lambda>t T. ctxOid (browserContext T) = ctxOid c \<and> pred t T)
       options_timeout s"

subsection \<open>Runs of the Browser\<close>

text \<open>
  Everything that can happen to a Browser, one step at a time: a notification of the
  Connection, a call of the interface, the resumption of a suspended call, the expiry of a
  timer, the settlement of a Page materialization. A step that throws keeps the state it
  reached.
\<close>

datatype step =
    NotifyTargetCreated targetInfo
  | NotifyTargetDestroyed string
  | NotifyProvisionalTargetCommitted string string
  | ResumeProvisionalTargetCommitted commitK
  | CallTargetChanged nat
  | CallCreateIncognitoBrowserContext
  | ResumeCreateIncognitoBrowserContext "string result"
  | CallClose browserContext
  | CallDisposeContext "string option"
  | ResumeDisposeContext "string option" "unit result"
  | CallCreatePageInContext "string option"
  | ResumeCreatePageInContext "string result"
  | CallTargetPage nat
  | PageSettles nat "nat option result"
  | CallWaitForTarget "nat \<Rightarrow> target \<Rightarrow> bool" "int option"
  | ResumeWaitForTarget nat
  | TimerExpires nat

fun exec :: "events \<Rightarrow> step \<Rightarrow> browser \<Rightarrow> browser" where
  "exec ev (NotifyTargetCreated ti) s = snd (Browser_onTargetCreated ev ti s)"
| "exec ev (NotifyTargetDestroyed tid) s = snd (Browser_onTargetDestroyed ev tid s)"
| "exec ev (NotifyProvisionalTargetCommitted old new) s =
     snd (Browser_onProvisionalTargetCommitted old new s)"
| "exec ev (ResumeProvisionalTargetCommitted k) s =
     snd (Browser_onProvisionalTargetCommitted_resume k s)"
| "exec ev (CallTargetChanged t) s = snd (Browser_onTargetChanged ev t s)"
| "exec ev CallCreateIncognitoBrowserContext s = Browser_createIncognitoBrowserContext s"
| "exec ev (ResumeCreateIncognitoBrowserContext r) s =
     snd (Browser_createIncognitoBrowserContext_resume r s)"
| "exec ev (CallClose c) s = snd (BrowserContext_close c s)"
| "exec ev (CallDisposeContext cid) s = Browser_disposeContext cid s"
| "exec ev (ResumeDisposeContext cid r) s = snd (Browser_disposeContext_resume cid r s)"
| "exec ev (CallCreatePageInContext cid) s = Browser_createPageInContext cid s"
| "exec ev (ResumeCreatePageInContext r) s = snd (Browser_createPageInContext_resume r s)"
| "exec ev (CallTargetPage t) s = snd (Target_page t s)"
| "exec ev (PageSettles p r) s = settle_page p r s"
| "exec ev (CallWaitForTarget pred options_timeout) s =
     snd (Browser_waitForTarget ev pred options_timeout s)"
| "exec ev (ResumeWaitForTarget w) s = snd (Browser_waitForTarget_resume ev w s)"
| "exec ev (TimerExpires w) s = timer_expires w s"

definition run :: "events \<Rightarrow> step list \<Rightarrow> browser \<Rightarrow> browser" where
  "run ev steps s = fold (exec ev) steps s"

text \<open>
  Modelled from the spec: the table \<open>Events\<close> of \<open>./events\<close>, which is not part of the
  sources at hand. The spec has three events, "target created", "target destroyed" and
  "target changed", each emitted on the Browser and on the owning context under the one name.
\<close>

definition Events :: events where
  "Events =
     \<lparr> Browser_TargetCreated = ''target created'',
       Browser_TargetDestroyed = ''target destroyed'',
       Browser_TargetChanged = ''target changed'',
       BrowserContext_TargetCreated = ''target created'',
       BrowserContext_TargetDestroyed = ''target destroyed'',
       BrowserContext_TargetChanged = ''target changed'' \<rparr>"

text \<open>The first index of an action in a trace, to compare the order of two actions.\<close>

fun first_index :: "'a list \<Rightarrow> 'a \<Rightarrow> nat option" where
  "first_index [] a = None"
| "first_index (x # xs) a =
     (if x = a then Some 0 else map_option Suc (first_index xs a))"

definition precedes :: "'a list \<Rightarrow> 'a \<Rightarrow> 'a \<Rightarrow> bool" where
  "precedes tr a b =
     (case (first_index tr a, first_index tr b) of
        (Some i, Some j) \<Rightarrow> i < j
      | _ \<Rightarrow> False)"

subsection \<open>Invariants of runs\<close>

text \<open>
  How a waiter can change in one step: its predicate and its timer stay; the awaited promise
  stays as it is, or goes from pending to resolved, or from pending to the rejection of its
  timer.
\<close>

definition waiter_evolves :: "waiter \<Rightarrow> waiter \<Rightarrow> bool" where
  "waiter_evolves a b =
     (predicate b = predicate a \<and> timer b = timer a \<and>
      (awaited b = awaited a \<or>
       (awaited a = Pending \<and> (\<exists>t. awaited b = Resolved t)) \<or>
       (awaited a = Pending \<and>
        (\<exists>taskName bound. timer a = Some (taskName, bound) \<and>
                           awaited b = Rejected (TimeoutError taskName bound)))))"

text \<open>
  The listeners of one \<open>waitForTarget\<close> call that are registered; the listeners of a
  Browser all belong to calls made so far; and a call has both its subscriptions, or has
  none and its awaited promise is settled.
\<close>

definition subscriptions :: "nat \<Rightarrow> browser \<Rightarrow> (string \<times> listener) list" where
  "subscriptions w s = filter (\<lambda>nl. snd nl = Check w) (listeners s)"

definition listeners_wf :: "browser \<Rightarrow> bool" where
  "listeners_wf s = (\<forall>n w. (n, Check w) \<in> set (listeners s) \<longrightarrow> w < nextWaiter s)"

definition wait_inv :: "events \<Rightarrow> nat \<Rightarrow> browser \<Rightarrow> bool" where
  "wait_inv ev w s =
     (w < nextWaiter s \<and> listeners_wf s \<and>
      (subscriptions w s = [(Browser_TargetCreated ev, Check w), (Browser_TargetChanged ev, Check w)] \<or>
       (subscriptions w s = [] \<and> awaited (waiters s w) \<noteq> Pending)))"

text \<open>
  The continuations of commits that the handler has suspended in the course of a run, and
  the runs that resume no other continuation of a commit. Along such a run the old Target
  of every suspended continuation is allocated and holds a promise, and the registry holds
  allocated Targets only.
\<close>

fun issued_by :: "step \<Rightarrow> browser \<Rightarrow> commitK list" where
  "issued_by (NotifyProvisionalTargetCommitted old new) s =
     (case fst (Browser_onProvisionalTargetCommitted old new s) of
        Suspended k \<Rightarrow> [k]
      | _ \<Rightarrow> [])"
| "issued_by _ s = []"

fun resumes_issued :: "commitK list \<Rightarrow> step \<Rightarrow> bool" where
  "resumes_issued ks (ResumeProvisionalTargetCommitted k) = (k \<in> set ks)"
| "resumes_issued ks _ = True"

fun issued :: "events \<Rightarrow> commitK list \<Rightarrow> step list \<Rightarrow> browser \<Rightarrow> commitK list" where
  "issued ev ks [] s = ks"
| "issued ev ks (st # steps) s = issued ev (ks @ issued_by st s) steps (exec ev st s)"

fun resumes_only_issued :: "events \<Rightarrow> commitK list \<Rightarrow> step list \<Rightarrow> browser \<Rightarrow> bool" where
  "resumes_only_issued ev ks [] s = True"
| "resumes_only_issued ev ks (st # steps) s =
     (resumes_issued ks st \<and> resumes_only_issued ev (ks @ issued_by st s) steps (exec ev st s))"

definition promises_kept :: "commitK list \<Rightarrow> browser \<Rightarrow> bool" where
  "promises_kept ks s =
     ((\<forall>k \<in> set ks. k_oldTarget k < nextTarget s \<and>
                      pagePromise (targetObjs s (k_oldTarget k)) \<noteq> None) \<and>
      (\<forall>tid t. (tid, t) \<in> set (targets s) \<longrightarrow> t < nextTarget s))"

subsection \<open>Example states\<close>

text \<open>
  A Browser with one created context \<open>ctx1\<close>; then target A in that context and target
  B with a context id the Browser does not know, reached by the steps \<open>ex_steps\<close>; then
  the Page of target A requested and ready: promise 0, fulfilled with Page 7.
\<close>

definition ex_contexts :: browser where
  "ex_contexts = snd (Browser_createIncognitoBrowserContext_resume (Inr ''ctx1'') Browser_create)"

definition info_A :: targetInfo where
  "info_A = \<lparr> targetId = ''A'', browserContextId = Some ''ctx1'', targetType = ''page'' \<rparr>"

definition info_B :: targetInfo where
  "info_B = \<lparr> targetId = ''B'', browserContextId = Some ''elsewhere'', targetType = ''page'' \<rparr>"

definition ex_targets :: browser where
  "ex_targets =
     snd (Browser_onTargetCreated Events info_B (snd (Browser_onTargetCreated Events info_A ex_contexts)))"

definition ex_steps :: "step list" where
  "ex_steps = [ResumeCreateIncognitoBrowserContext (Inr ''ctx1''),
               NotifyTargetCreated info_A, NotifyTargetCreated info_B]"

definition ex_page_A :: browser where
  "ex_page_A = settle_page 0 (Inr (Some 7)) (snd (Target_page 0 ex_targets))"

text \<open>
  The same request with the materialization failed: promise 0, rejected.
\<close>

definition ex_page_A_rejected :: browser where
  "ex_page_A_rejected = settle_page 0 (Inl (PageError ''boom'')) (snd (Target_page 0 ex_targets))"

text \<open>
  Two commits in a chain. Targets X, A and B are created, the Page of X is ready (promise
  0, Page 8) and the Page of A is requested (promise 1). In this state the commits from X
  to A and from A to B are notified. Later the first continuation has run and promise 1 is
  fulfilled with Page 7; then the second continuation runs.
\<close>

definition info_X :: targetInfo where
  "info_X = \<lparr> targetId = ''X'', browserContextId = None, targetType = ''page'' \<rparr>"

definition ex_chain_steps :: "step list" where
  "ex_chain_steps =
     [NotifyTargetCreated info_X, NotifyTargetCreated info_A, NotifyTargetCreated info_B,
      CallTargetPage 0, PageSettles 0 (Inr (Some 8)), CallTargetPage 1]"

definition ex_chain :: browser where
  "ex_chain = run Events ex_chain_steps Browser_create"

definition ex_chain_later :: browser where
  "ex_chain_later =
     run Events [ResumeProvisionalTargetCommitted (CommitK 0 0 ''A''),
                 PageSettles 1 (Inr (Some 7))] ex_chain"

definition ex_chain_done :: browser where
  "ex_chain_done =
     snd (Browser_onProvisionalTargetCommitted_resume (CommitK (Suc 0) (Suc 0) ''B'') ex_chain_later)"

text \<open>
  Calls that have to wait: for target B with a bound of 50 milliseconds and with no timeout,
  made on the new Browser, and for a target with a Page promise, made when no target has
  one.
\<close>

definition is_B :: "nat \<Rightarrow> target \<Rightarrow> bool" where
  "is_B t T = (targetId (info T) = ''B'')"

definition ex_waiting :: browser where
  "ex_waiting = snd (Browser_waitForTarget Events is_B (Some 50) Browser_create)"

definition ex_waiting_forever :: browser where
  "ex_waiting_forever = snd (Browser_waitForTarget Events is_B (Some 0) Browser_create)"

definition has_page :: "nat \<Rightarrow> target \<Rightarrow> bool" where
  "has_page t T = (pagePromise T \<noteq> None)"

definition ex_waiting_page :: browser where
  "ex_waiting_page = snd (Browser_waitForTarget Events has_page None ex_targets)"

section \<open>Properties\<close>

subsection \<open>What an emission leaves alone\<close>

text \<open>
  An emission calls \<open>check\<close> closures and nothing else, so it can change waiters and
  the trace only.
\<close>

lemma record_action_fields [simp]:
  "defaultContext (record_action a s) = defaultContext s"
  "contexts (record_action a s) = contexts s"
  "targets (record_action a s) = targets s"
  "targetObjs (record_action a s) = targetObjs s"
  "nextTarget (record_action a s) = nextTarget s"
  "nextContext (record_action a s) = nextContext s"
  "promises (record_action a s) = promises s"
  "nextPromise (record_action a s) = nextPromise s"
  "listeners (record_action a s) = listeners s"
  "waiters (record_action a s) = waiters s"
  "nextWaiter (record_action a s) = nextWaiter s"
  "trace (record_action a s) = trace s @ [a]"
  by (simp_all add: record_action_def)

lemma call_listener_fields [simp]:
  "defaultContext (call_listener l t s) = defaultContext s"
  "contexts (call_listener l t s) = contexts s"
  "targets (call_listener l t s) = targets s"
  "targetObjs (call_listener l t s) = targetObjs s"
  "nextTarget (call_listener l t s) = nextTarget s"
  "nextContext (call_listener l t s) = nextContext s"
  "promises (call_listener l t s) = promises s"
  "nextPromise (call_listener l t s) = nextPromise s"
  "listeners (call_listener l t s) = listeners s"
  "nextWaiter (call_listener l t s) = nextWaiter s"
  "trace (call_listener l t s) = trace s"
  by (cases l; simp add: check_def resolve_def)+

lemma fold_call_listener_fields [simp]:
  "defaultContext (fold (\<lambda>l. call_listener l t) ls s) = defaultContext s"
  "contexts (fold (\<lambda>l. call_listener l t) ls s) = contexts s"
  "targets (fold (\<lambda>l. call_listener l t) ls s) = targets s"
  "targetObjs (fold (\<lambda>l. call_listener l t) ls s) = targetObjs s"
  "nextTarget (fold (\<lambda>l. call_listener l t) ls s) = nextTarget s"
  "nextContext (fold (\<lambda>l. call_listener l t) ls s) = nextContext s"
  "promises (fold (\<lambda>l. call_listener l t) ls s) = promises s"
  "nextPromise (fold (\<lambda>l. call_listener l t) ls s) = nextPromise s"
  "listeners (fold (\<lambda>l. call_listener l t) ls s) = listeners s"
  "nextWaiter (fold (\<lambda>l. call_listener l t) ls s) = nextWaiter s"
  "trace (fold (\<lambda>l. call_listener l t) ls s) = trace s"
  by (induction ls arbitrary: s; simp)+

lemma Browser_emit_fields [simp]:
  "defaultContext (Browser_emit name t s) = defaultContext s"
  "contexts (Browser_emit name t s) = contexts s"
  "targets (Browser_emit name t s) = targets s"
  "targetObjs (Browser_emit name t s) = targetObjs s"
  "nextTarget (Browser_emit name t s) = nextTarget s"
  "nextContext (Browser_emit name t s) = nextContext s"
  "promises (Browser_emit name t s) = promises s"
  "nextPromise (Browser_emit name t s) = nextPromise s"
  "listeners (Browser_emit name t s) = listeners s"
  "nextWaiter (Browser_emit name t s) = nextWaiter s"
  "trace (Browser_emit name t s) = trace s @ [Emit OnBrowser name t]"
  by (simp_all add: Browser_emit_def)

lemma BrowserContext_emit_fields [simp]:
  "defaultContext (BrowserContext_emit c name t s) = defaultContext s"
  "contexts (BrowserContext_emit c name t s) = contexts s"
  "targets (BrowserContext_emit c name t s) = targets s"
  "targetObjs (BrowserContext_emit c name t s) = targetObjs s"
  "nextTarget (BrowserContext_emit c name t s) = nextTarget s"
  "nextContext (BrowserContext_emit c name t s) = nextContext s"
  "promises (BrowserContext_emit c name t s) = promises s"
  "nextPromise (BrowserContext_emit c name t s) = nextPromise s"
  "listeners (BrowserContext_emit c name t s) = listeners s"
  "waiters (BrowserContext_emit c name t s) = waiters s"
  "nextWaiter (BrowserContext_emit c name t s) = nextWaiter s"
  "trace (BrowserContext_emit c name t s) = trace s @ [Emit (OnContext (ctxOid c)) name t]"
  by (simp_all add: BrowserContext_emit_def)

subsection \<open>What an emission does to a waiting call\<close>

text \<open>
  A listener settles its own call at most, and only from pending to resolved: a call whose
  listener is among those called, whose predicate holds and which is pending is resolved
  with the target; a call whose predicate fails, or which has no listener there, stays as
  it is.
\<close>

lemma waiter_evolves_refl [simp]: "waiter_evolves a a"
  by (simp add: waiter_evolves_def)

lemma waiter_evolves_trans:
  "waiter_evolves a b \<Longrightarrow> waiter_evolves b c \<Longrightarrow> waiter_evolves a c"
  unfolding waiter_evolves_def by auto

lemma call_listener_evolves: "waiter_evolves (waiters s w) (waiters (call_listener l t s) w)"
  by (cases l) (simp add: check_def resolve_def waiter_evolves_def)

lemma fold_call_listener_evolves:
  "waiter_evolves (waiters s w) (waiters (fold (\<lambda>l. call_listener l t) ls s) w)"
proof (induction ls arbitrary: s)
  case Nil
  show ?case by simp
next
  case (Cons l ls)
  show ?case
    using call_listener_evolves [of s w l t] Cons.IH [of "call_listener l t s"]
    by (auto intro: waiter_evolves_trans)
qed

lemma Browser_emit_evolves: "waiter_evolves (waiters s w) (waiters (Browser_emit name t s) w)"
  using fold_call_listener_evolves [of "record_action (Emit OnBrowser name t) s" w t]
  by (simp add: Browser_emit_def)

lemma Browser_emit_evolves_from:
  "waiters s0 w = a \<Longrightarrow> waiter_evolves a (waiters (Browser_emit name t s0) w)"
  using Browser_emit_evolves [of s0 w name t] by simp

lemma call_listener_settled:
  "awaited (waiters s w) \<noteq> Pending \<Longrightarrow> waiters (call_listener l t s) w = waiters s w"
  by (cases l) (auto simp: check_def resolve_def)

lemma fold_call_listener_settled:
  "awaited (waiters s w) \<noteq> Pending \<Longrightarrow>
   waiters (fold (\<lambda>l. call_listener l t) ls s) w = waiters s w"
  by (induction ls arbitrary: s) (simp_all add: call_listener_settled)

lemma fold_call_listener_resolves:
  "Check w \<in> set ls \<Longrightarrow> predicate (waiters s w) t (targetObjs s t) \<Longrightarrow>
   awaited (waiters s w) = Pending \<Longrightarrow>
   awaited (waiters (fold (\<lambda>l. call_listener l t) ls s) w) = Resolved t"
proof (induction ls arbitrary: s)
  case Nil
  then show ?case by simp
next
  case (Cons l ls)
  obtain w' where l: "l = Check w'" by (cases l)
  show ?case
  proof (cases "w' = w")
    case True
    have "awaited (waiters (call_listener l t s) w) = Resolved t"
      using Cons.prems l True by (simp add: check_def resolve_def)
    then show ?thesis
      using fold_call_listener_settled [of "call_listener l t s" w t ls] by simp
  next
    case False
    have same: "waiters (call_listener l t s) w = waiters s w"
      using l False by (simp add: check_def resolve_def)
    have "Check w \<in> set ls" using Cons.prems(1) l False by simp
    then show ?thesis
      using Cons.IH [of "call_listener l t s"] Cons.prems same by simp
  qed
qed

lemma fold_call_listener_unmatched:
  "\<not> predicate (waiters s w) t (targetObjs s t) \<Longrightarrow>
   awaited (waiters (fold (\<lambda>l. call_listener l t) ls s) w) = awaited (waiters s w)"
proof (induction ls arbitrary: s)
  case Nil
  then show ?case by simp
next
  case (Cons l ls)
  obtain w' where l: "l = Check w'" by (cases l)
  have same: "w' = w \<Longrightarrow> call_listener l t s = s"
    using Cons.prems l by (simp add: check_def)
  have other: "w' \<noteq> w \<Longrightarrow> waiters (call_listener l t s) w = waiters s w"
    using l by (simp add: check_def resolve_def)
  show ?case
    using Cons.IH [of "call_listener l t s"] Cons.prems same other
    by (cases "w' = w") simp_all
qed

lemma fold_call_listener_other:
  "Check w \<notin> set ls \<Longrightarrow> waiters (fold (\<lambda>l. call_listener l t) ls s) w = waiters s w"
proof (induction ls arbitrary: s)
  case Nil
  show ?case by simp
next
  case (Cons l ls)
  obtain w' where l: "l = Check w'" by (cases l)
  have "waiters (call_listener l t s) w = waiters s w"
    using Cons.prems l by (auto simp: check_def resolve_def)
  then show ?case using Cons.IH [of "call_listener l t s"] Cons.prems by simp
qed

lemma Browser_emit_resolves:
  assumes "(name, Check w) \<in> set (listeners s)"
    and "predicate (waiters s w) t (targetObjs s t)"
    and "awaited (waiters s w) = Pending"
  shows "awaited (waiters (Browser_emit name t s) w) = Resolved t"
proof -
  have "Check w \<in> set (listeners_of name (record_action (Emit OnBrowser name t) s))"
    using assms(1) by (force simp: listeners_of_def)
  then show ?thesis
    using assms(2,3) unfolding Browser_emit_def listeners_of_def
    by (intro fold_call_listener_resolves) (simp_all add: listeners_of_def)
qed

lemma Browser_emit_unmatched:
  "\<not> predicate (waiters s w) t (targetObjs s t) \<Longrightarrow>
   awaited (waiters (Browser_emit name t s) w) = awaited (waiters s w)"
  unfolding Browser_emit_def
  using fold_call_listener_unmatched [of "record_action (Emit OnBrowser name t) s" w t]
  by simp

lemma onTargetCreated_resolves:
  assumes "(Browser_TargetCreated ev, Check w) \<in> set (listeners s)"
    and "awaited (waiters s w) = Pending"
    and "predicate (waiters s w) (nextTarget s)
           (targetObjs (snd (Browser_onTargetCreated ev ti s)) (nextTarget s))"
  shows "awaited (waiters (snd (Browser_onTargetCreated ev ti s)) w) = Resolved (nextTarget s)"
proof -
  define c where "c =
    (case (case browserContextId ti of
             None \<Rightarrow> None
           | Some cid \<Rightarrow> if truthy (Some cid) then map_of (contexts s) cid else None) of
       None \<Rightarrow> defaultContext s
     | Some c \<Rightarrow> c)"
  define s' where "s' =
    record_action (TargetsSet (targetId ti) (nextTarget s))
      (s\<lparr> targetObjs := (targetObjs s)
              (nextTarget s := \<lparr> info = ti, browserContext = c, pagePromise = None \<rparr>),
           nextTarget := Suc (nextTarget s),
           targets := AList.update (targetId ti) (nextTarget s) (targets s) \<rparr>)"
  have eq: "snd (Browser_onTargetCreated ev ti s) =
      BrowserContext_emit c (BrowserContext_TargetCreated ev) (nextTarget s)
        (Browser_emit (Browser_TargetCreated ev) (nextTarget s) s')"
    by (simp add: Browser_onTargetCreated_def Let_def s'_def c_def)
  have "awaited (waiters (Browser_emit (Browser_TargetCreated ev) (nextTarget s) s') w) =
      Resolved (nextTarget s)"
  proof (rule Browser_emit_resolves)
    show "(Browser_TargetCreated ev, Check w) \<in> set (listeners s')"
      using assms(1) by (simp add: s'_def)
    show "awaited (waiters s' w) = Pending"
      using assms(2) by (simp add: s'_def)
    show "predicate (waiters s' w) (nextTarget s) (targetObjs s' (nextTarget s))"
      using assms(3) unfolding eq by (simp add: s'_def)
  qed
  then show ?thesis unfolding eq by simp
qed

lemma onTargetChanged_resolves:
  assumes "(BrowserContext_TargetChanged ev, Check w) \<in> set (listeners s)"
    and "awaited (waiters s w) = Pending"
    and "predicate (waiters s w) t (targetObjs s t)"
  shows "awaited (waiters (snd (Browser_onTargetChanged ev t s)) w) = Resolved t"
  using Browser_emit_resolves [OF assms(1) assms(3) assms(2)]
  by (simp add: Browser_onTargetChanged_def Let_def)

subsection \<open>The steps of a run keep the invariants\<close>

text \<open>
  No step replaces the default context, lowers the counter of waiters, or changes a waiter
  other than by \<open>waiter_evolves\<close>; a step leaves the listeners alone, or appends the
  two listeners of a new call, or removes the listeners of a settled call.
\<close>

lemmas op_defs =
  Browser_onTargetCreated_def Browser_onTargetDestroyed_def Browser_onTargetChanged_def
  Browser_onProvisionalTargetCommitted_def Browser_onProvisionalTargetCommitted_resume_def
  Browser_createIncognitoBrowserContext_def Browser_createIncognitoBrowserContext_resume_def
  BrowserContext_close_def Browser_disposeContext_def Browser_disposeContext_resume_def
  Browser_createPageInContext_def Browser_createPageInContext_resume_def
  Target_page_def settle_page_def Browser_waitForTarget_def Browser_waitForTarget_resume_def
  waitForTarget_finally_def Browser_on_def Browser_removeListener_def waitWithTimeout_def
  timer_expires_def assert_def

lemma exec_defaultContext: "defaultContext (exec ev st s) = defaultContext s"
  by (cases st)
     (simp_all add: op_defs Let_def split: option.splits sum.splits promiseState.splits
        waitState.splits prod.splits)

lemma run_defaultContext: "defaultContext (run ev steps s) = defaultContext s"
  unfolding run_def by (induction steps arbitrary: s) (simp_all add: exec_defaultContext)

lemma exec_nextWaiter_mono: "nextWaiter s \<le> nextWaiter (exec ev st s)"
  by (cases st)
     (simp_all add: op_defs Let_def split: option.splits sum.splits promiseState.splits
        waitState.splits prod.splits)

lemma run_nextWaiter_mono: "nextWaiter s \<le> nextWaiter (run ev steps s)"
  unfolding run_def
proof (induction steps arbitrary: s)
  case Nil
  show ?case by simp
next
  case (Cons st steps)
  show ?case
    using exec_nextWaiter_mono [of s ev st] Cons.IH [of "exec ev st s"] by simp
qed

lemma exec_waiter_evolves:
  assumes "w < nextWaiter s"
  shows "waiter_evolves (waiters s w) (waiters (exec ev st s) w)"
proof (cases st)
  case (NotifyTargetCreated ti)
  then show ?thesis
    by (simp add: Browser_onTargetCreated_def Let_def Browser_emit_evolves_from)
next
  case (NotifyTargetDestroyed tid)
  then show ?thesis
    by (simp add: Browser_onTargetDestroyed_def Let_def Browser_emit_evolves_from
          split: option.splits)
next
  case (CallTargetChanged t)
  then show ?thesis
    by (simp add: Browser_onTargetChanged_def Let_def Browser_emit_evolves_from)
next
  case (CallWaitForTarget pred options_timeout)
  then show ?thesis
    using assms
    by (simp add: Browser_waitForTarget_def Browser_on_def waitWithTimeout_def Let_def
          split: option.splits)
next
  case (TimerExpires w')
  then show ?thesis
    by (cases "w' = w")
       (auto simp: timer_expires_def waiter_evolves_def split: option.splits)
qed (simp_all add: op_defs Let_def split: option.splits sum.splits promiseState.splits
        waitState.splits prod.splits)

lemma run_waiter_evolves:
  "w < nextWaiter s \<Longrightarrow> waiter_evolves (waiters s w) (waiters (run ev steps s) w)"
  unfolding run_def
proof (induction steps arbitrary: s)
  case Nil
  show ?case by simp
next
  case (Cons st steps)
  have "w < nextWaiter (exec ev st s)"
    using Cons.prems exec_nextWaiter_mono [of s ev st] by simp
  then show ?case
    using exec_waiter_evolves [OF Cons.prems, of ev st] Cons.IH [of "exec ev st s"]
    by (auto intro: waiter_evolves_trans)
qed

lemma filter_remove_last:
  "filter P (remove_last x xs) = (if P x then remove_last x (filter P xs) else filter P xs)"
proof (cases "P x")
  case True
  then show ?thesis
    by (simp add: remove_last_def rev_filter [symmetric] filter_remove1)
next
  case False
  then have "x \<notin> set (filter P (rev xs))" by simp
  then have "remove1 x (filter P (rev xs)) = filter P (rev xs)"
    by (rule remove1_idem)
  with False show ?thesis
    by (simp add: remove_last_def rev_filter [symmetric] filter_remove1)
qed

lemma set_remove_last: "set (remove_last x xs) \<subseteq> set xs"
  using set_remove1_subset [of x "rev xs"] by (simp add: remove_last_def)

lemma exec_listeners_shape:
  "(listeners (exec ev st s) = listeners s \<and> nextWaiter (exec ev st s) = nextWaiter s) \<or>
   (listeners (exec ev st s) =
      listeners s @ [(Browser_TargetCreated ev, Check (nextWaiter s)),
                     (Browser_TargetChanged ev, Check (nextWaiter s))] \<and>
    nextWaiter (exec ev st s) = Suc (nextWaiter s)) \<or>
   (\<exists>w'. st = ResumeWaitForTarget w' \<and> awaited (waiters s w') \<noteq> Pending \<and>
         waiters (exec ev st s) = waiters s \<and> nextWaiter (exec ev st s) = nextWaiter s \<and>
         listeners (exec ev st s) =
           remove_last (Browser_TargetChanged ev, Check w')
             (remove_last (Browser_TargetCreated ev, Check w') (listeners s)))"
  by (cases st)
     (simp_all add: op_defs Let_def split: option.splits sum.splits promiseState.splits
        waitState.splits prod.splits)

lemma exec_listeners_wf:
  assumes "listeners_wf s"
  shows "listeners_wf (exec ev st s)"
proof -
  consider
      (same) "listeners (exec ev st s) = listeners s" "nextWaiter (exec ev st s) = nextWaiter s"
    | (call) "listeners (exec ev st s) =
                listeners s @ [(Browser_TargetCreated ev, Check (nextWaiter s)),
                               (Browser_TargetChanged ev, Check (nextWaiter s))]"
             "nextWaiter (exec ev st s) = Suc (nextWaiter s)"
    | (resume) w0 where "nextWaiter (exec ev st s) = nextWaiter s"
        "listeners (exec ev st s) =
           remove_last (Browser_TargetChanged ev, Check w0)
             (remove_last (Browser_TargetCreated ev, Check w0) (listeners s))"
    using exec_listeners_shape [of ev st s] by blast
  then show ?thesis
  proof cases
    case same
    then show ?thesis using assms by (simp add: listeners_wf_def)
  next
    case call
    then show ?thesis using assms by (auto simp: listeners_wf_def less_Suc_eq)
  next
    case resume
    have "set (listeners (exec ev st s)) \<subseteq> set (listeners s)"
      using set_remove_last [of "(Browser_TargetChanged ev, Check w0)"
              "remove_last (Browser_TargetCreated ev, Check w0) (listeners s)"]
            set_remove_last [of "(Browser_TargetCreated ev, Check w0)" "listeners s"]
      unfolding resume(2) by (rule subset_trans)
    then show ?thesis using assms resume(1) by (auto simp: listeners_wf_def)
  qed
qed

lemma run_listeners_wf: "listeners_wf s \<Longrightarrow> listeners_wf (run ev steps s)"
  unfolding run_def by (induction steps arbitrary: s) (simp_all add: exec_listeners_wf)

lemma Browser_create_listeners_wf: "listeners_wf Browser_create"
  by (simp add: listeners_wf_def Browser_create_def)

lemma exec_wait_inv:
  assumes "wait_inv ev w s"
  shows "wait_inv ev w (exec ev st s)"
proof -
  have w: "w < nextWaiter s" and wf: "listeners_wf s" using assms by (simp_all add: wait_inv_def)
  have w': "w < nextWaiter (exec ev st s)" using w exec_nextWaiter_mono [of s ev st] by simp
  have wf': "listeners_wf (exec ev st s)" using wf by (rule exec_listeners_wf)
  have settled: "awaited (waiters s w) \<noteq> Pending \<Longrightarrow> awaited (waiters (exec ev st s) w) \<noteq> Pending"
    using exec_waiter_evolves [OF w, of ev st] by (auto simp: waiter_evolves_def)
  consider
      (same) "listeners (exec ev st s) = listeners s"
    | (call) "listeners (exec ev st s) =
                listeners s @ [(Browser_TargetCreated ev, Check (nextWaiter s)),
                               (Browser_TargetChanged ev, Check (nextWaiter s))]"
    | (resume) w0 where "st = ResumeWaitForTarget w0" "awaited (waiters s w0) \<noteq> Pending"
        "waiters (exec ev st s) = waiters s"
        "listeners (exec ev st s) =
           remove_last (Browser_TargetChanged ev, Check w0)
             (remove_last (Browser_TargetCreated ev, Check w0) (listeners s))"
    using exec_listeners_shape [of ev st s] by blast
  then have
    "subscriptions w (exec ev st s) =
       [(Browser_TargetCreated ev, Check w), (Browser_TargetChanged ev, Check w)] \<or>
     (subscriptions w (exec ev st s) = [] \<and> awaited (waiters (exec ev st s) w) \<noteq> Pending)"
  proof cases
    case same
    then show ?thesis using assms settled by (auto simp: wait_inv_def subscriptions_def)
  next
    case call
    then show ?thesis using assms settled w by (auto simp: wait_inv_def subscriptions_def)
  next
    case resume
    show ?thesis
    proof (cases "w0 = w")
      case True
      have "subscriptions w (exec ev st s) =
              remove_last (Browser_TargetChanged ev, Check w)
                (remove_last (Browser_TargetCreated ev, Check w) (subscriptions w s))"
        using resume(4) True by (simp add: subscriptions_def filter_remove_last)
      moreover have "subscriptions w s =
              [(Browser_TargetCreated ev, Check w), (Browser_TargetChanged ev, Check w)] \<or>
            subscriptions w s = []"
        using assms by (auto simp: wait_inv_def)
      ultimately have "subscriptions w (exec ev st s) = []"
        by (elim disjE) (simp_all add: remove_last_def)
      then show ?thesis using resume(2,3) True by simp
    next
      case False
      then have "subscriptions w (exec ev st s) = subscriptions w s"
        using resume(4) by (simp add: subscriptions_def filter_remove_last)
      then show ?thesis using assms settled by (auto simp: wait_inv_def)
    qed
  qed
  then show ?thesis using w' wf' by (simp add: wait_inv_def)
qed

lemma run_wait_inv: "wait_inv ev w s \<Longrightarrow> wait_inv ev w (run ev steps s)"
  unfolding run_def by (induction steps arbitrary: s) (simp_all add: exec_wait_inv)

lemma waitForTarget_suspended:
  assumes "Browser_waitForTarget ev P topt s = (Suspended w, s1)"
  shows "w = nextWaiter s"
    and "nextWaiter s1 = Suc (nextWaiter s)"
    and "predicate (waiters s1 w) = P"
    and "awaited (waiters s1 w) = Pending"
    and "timer (waiters s1 w) =
           (let timeout = (case topt of None \<Rightarrow> 30000 | Some t \<Rightarrow> t)
            in if timeout = 0 then None else Some (''target'', timeout))"
    and "listeners s1 = listeners s @ [(Browser_TargetCreated ev, Check w),
                                       (Browser_TargetChanged ev, Check w)]"
  using assms
  by (auto simp: Browser_waitForTarget_def Browser_on_def waitWithTimeout_def Let_def
        split: option.splits if_splits)

lemma waitForTarget_existing:
  "find (\<lambda>t. P t (targetObjs s t)) (Browser_targets s) = Some t \<Longrightarrow>
   Browser_waitForTarget ev P topt s = (Done t, s)"
  by (simp add: Browser_waitForTarget_def Let_def)

lemma waitForTarget_no_match:
  "find (\<lambda>t. P t (targetObjs s t)) (Browser_targets s) = None \<Longrightarrow>
   fst (Browser_waitForTarget ev P topt s) = Suspended (nextWaiter s)"
  by (simp add: Browser_waitForTarget_def Let_def)

lemma waitForTarget_wait_inv:
  assumes "listeners_wf s" and "Browser_waitForTarget ev P topt s = (Suspended w, s1)"
  shows "wait_inv ev w s1"
proof -
  note facts = waitForTarget_suspended [OF assms(2)]
  have "subscriptions w s = []"
    using assms(1) facts(1)
    by (fastforce simp: subscriptions_def listeners_wf_def filter_empty_conv)
  then have "subscriptions w s1 =
      [(Browser_TargetCreated ev, Check w), (Browser_TargetChanged ev, Check w)]"
    using facts(6) by (simp add: subscriptions_def)
  moreover have "listeners_wf s1"
    using assms(1) facts(1,2,6) by (auto simp: listeners_wf_def less_Suc_eq)
  ultimately show ?thesis using facts(1,2) by (simp add: wait_inv_def)
qed

lemma waiting_is_subscribed:
  assumes "wait_inv ev w s" and "awaited (waiters s w) = Pending"
  shows "(Browser_TargetCreated ev, Check w) \<in> set (listeners s)"
    and "(Browser_TargetChanged ev, Check w) \<in> set (listeners s)"
proof -
  have "subscriptions w s =
      [(Browser_TargetCreated ev, Check w), (Browser_TargetChanged ev, Check w)]"
    using assms by (auto simp: wait_inv_def)
  then have "set [(Browser_TargetCreated ev, Check w), (Browser_TargetChanged ev, Check w)]
      \<subseteq> set (listeners s)"
    unfolding subscriptions_def by (metis filter_is_subset)
  then show "(Browser_TargetCreated ev, Check w) \<in> set (listeners s)"
    and "(Browser_TargetChanged ev, Check w) \<in> set (listeners s)" by simp_all
qed

lemma resume_settled_unsubscribes:
  assumes "wait_inv ev w s" and "awaited (waiters s w) \<noteq> Pending"
  shows "(n, Check w) \<notin> set (listeners (snd (Browser_waitForTarget_resume ev w s)))"
proof -
  have "wait_inv ev w (exec ev (ResumeWaitForTarget w) s)"
    using assms(1) by (rule exec_wait_inv)
  moreover have "listeners (exec ev (ResumeWaitForTarget w) s) = listeners (waitForTarget_finally ev w s)"
    using assms(2) by (simp add: Browser_waitForTarget_resume_def split: waitState.splits)
  moreover have "subscriptions w (waitForTarget_finally ev w s) = []"
  proof -
    have "subscriptions w (waitForTarget_finally ev w s) =
            remove_last (Browser_TargetChanged ev, Check w)
              (remove_last (Browser_TargetCreated ev, Check w) (subscriptions w s))"
      by (simp add: subscriptions_def waitForTarget_finally_def Browser_removeListener_def
            filter_remove_last)
    moreover have "subscriptions w s =
            [(Browser_TargetCreated ev, Check w), (Browser_TargetChanged ev, Check w)] \<or>
          subscriptions w s = []"
      using assms(1) by (auto simp: wait_inv_def)
    ultimately show ?thesis by (elim disjE) (simp_all add: remove_last_def)
  qed
  ultimately have "filter (\<lambda>nl. snd nl = Check w)
      (listeners (snd (Browser_waitForTarget_resume ev w s))) = []"
    using assms(2)
    by (simp add: subscriptions_def Browser_waitForTarget_resume_def split: waitState.splits)
  then show ?thesis by (auto simp: filter_empty_conv)
qed

lemma run_waiter_fixed:
  assumes "Browser_waitForTarget ev P topt s = (Suspended w, s1)"
  shows "predicate (waiters (run ev steps s1) w) = P"
    and "timer (waiters (run ev steps s1) w) = timer (waiters s1 w)"
    and "awaited (waiters (run ev steps s1) w) = Rejected e \<Longrightarrow>
           \<exists>taskName bound. timer (waiters s1 w) = Some (taskName, bound) \<and>
                              e = TimeoutError taskName bound"
proof -
  note facts = waitForTarget_suspended [OF assms]
  have "w < nextWaiter s1" using facts(1,2) by simp
  then have ev: "waiter_evolves (waiters s1 w) (waiters (run ev steps s1) w)"
    by (rule run_waiter_evolves)
  show "predicate (waiters (run ev steps s1) w) = P"
    using ev facts(3) by (simp add: waiter_evolves_def)
  show "timer (waiters (run ev steps s1) w) = timer (waiters s1 w)"
    using ev by (simp add: waiter_evolves_def)
  show "\<exists>taskName bound. timer (waiters s1 w) = Some (taskName, bound) \<and>
                              e = TimeoutError taskName bound"
    if "awaited (waiters (run ev steps s1) w) = Rejected e"
    using ev facts(4) that by (auto simp: waiter_evolves_def)
qed

text \<open>
  No step of a run that resumes suspended continuations only takes a promise away from a
  Target: the old Target of a suspended continuation still holds one when the continuation
  is resumed.
\<close>

lemma set_update_registry:
  "(tid, t) \<in> set (AList.update k v al) \<Longrightarrow> (tid, t) = (k, v) \<or> (tid, t) \<in> set al"
  by (induction al) (auto split: if_splits)

lemma exec_keeps_set_promises:
  assumes "t < nextTarget s" and "pagePromise (targetObjs s t) \<noteq> None"
    and "promises_kept ks s" and "resumes_issued ks st"
  shows "pagePromise (targetObjs (exec ev st s) t) \<noteq> None"
proof (cases st)
  case (NotifyTargetCreated ti)
  then show ?thesis using assms(1,2) by (simp add: Browser_onTargetCreated_def Let_def)
next
  case (NotifyTargetDestroyed tid)
  then show ?thesis using assms(2)
    by (simp add: Browser_onTargetDestroyed_def Let_def split: option.splits)
next
  case (CallTargetChanged t')
  then show ?thesis using assms(2) by (simp add: Browser_onTargetChanged_def Let_def)
next
  case (ResumeProvisionalTargetCommitted k)
  then have "pagePromise (targetObjs s (k_oldTarget k)) \<noteq> None"
    using assms(3,4) by (simp add: promises_kept_def)
  then show ?thesis using assms(2) ResumeProvisionalTargetCommitted
    by (auto simp: Browser_onProvisionalTargetCommitted_resume_def Let_def
          split: promiseState.splits option.splits)
next
  case (CallTargetPage t')
  then show ?thesis using assms(2) by (auto simp: Target_page_def Let_def)
next
  case (ResumeCreatePageInContext r)
  then show ?thesis using assms(2)
    by (auto simp: Browser_createPageInContext_resume_def Target_page_def Let_def
          split: sum.splits option.splits prod.splits if_splits)
qed (insert assms(2), simp_all add: op_defs Let_def split: option.splits sum.splits
        promiseState.splits waitState.splits prod.splits)

lemma exec_nextTarget_mono: "nextTarget s \<le> nextTarget (exec ev st s)"
  by (cases st)
     (simp_all add: op_defs Let_def split: option.splits sum.splits promiseState.splits
        waitState.splits prod.splits)

lemma exec_targets_shape:
  "(targets (exec ev st s) = targets s \<and> nextTarget (exec ev st s) = nextTarget s) \<or>
   (\<exists>key. targets (exec ev st s) = AList.update key (nextTarget s) (targets s) \<and>
         nextTarget (exec ev st s) = Suc (nextTarget s)) \<or>
   (\<exists>tid. targets (exec ev st s) = AList.delete tid (targets s) \<and>
          nextTarget (exec ev st s) = nextTarget s)"
proof (cases st)
  case (NotifyTargetCreated ti)
  then show ?thesis by (auto simp: Browser_onTargetCreated_def Let_def)
next
  case (NotifyTargetDestroyed tid)
  then show ?thesis by (auto simp: Browser_onTargetDestroyed_def Let_def split: option.splits)
qed (simp_all add: op_defs Let_def split: option.splits sum.splits promiseState.splits
        waitState.splits prod.splits)

lemma exec_registry_allocated:
  assumes "\<forall>tid t. (tid, t) \<in> set (targets s) \<longrightarrow> t < nextTarget s"
    and "(tid, t) \<in> set (targets (exec ev st s))"
  shows "t < nextTarget (exec ev st s)"
proof -
  consider
      (same) "targets (exec ev st s) = targets s" "nextTarget (exec ev st s) = nextTarget s"
    | (created) key where
        "targets (exec ev st s) = AList.update key (nextTarget s) (targets s)"
        "nextTarget (exec ev st s) = Suc (nextTarget s)"
    | (destroyed) tid' where "targets (exec ev st s) = AList.delete tid' (targets s)"
        "nextTarget (exec ev st s) = nextTarget s"
    using exec_targets_shape [of ev st s] by blast
  then show ?thesis
  proof cases
    case same
    then show ?thesis using assms by simp
  next
    case created
    then show ?thesis
      using assms set_update_registry [of tid t key "nextTarget s" "targets s"]
      by (auto simp: less_Suc_eq)
  next
    case destroyed
    then show ?thesis using assms by (auto simp: AList.delete_eq)
  qed
qed

lemma issued_by_allocated:
  assumes "\<forall>tid t. (tid, t) \<in> set (targets s) \<longrightarrow> t < nextTarget s"
    and "k \<in> set (issued_by st s)"
  shows "k_oldTarget k < nextTarget s \<and> pagePromise (targetObjs s (k_oldTarget k)) \<noteq> None"
proof (cases st)
  case (NotifyProvisionalTargetCommitted old new)
  then show ?thesis
    using assms
    by (auto simp: Browser_onProvisionalTargetCommitted_def split: option.splits
          dest: map_of_SomeD)
qed (insert assms(2), simp_all)

lemma exec_promises_kept:
  assumes "promises_kept ks s" and "resumes_issued ks st"
  shows "promises_kept (ks @ issued_by st s) (exec ev st s)"
proof -
  have reg: "\<forall>tid t. (tid, t) \<in> set (targets s) \<longrightarrow> t < nextTarget s"
    using assms(1) by (simp add: promises_kept_def)
  have before: "k_oldTarget k < nextTarget s \<and>
      pagePromise (targetObjs s (k_oldTarget k)) \<noteq> None"
    if "k \<in> set (ks @ issued_by st s)" for k
    using that assms(1) issued_by_allocated [OF reg, of k st]
    by (auto simp: promises_kept_def)
  have after: "k_oldTarget k < nextTarget (exec ev st s) \<and>
      pagePromise (targetObjs (exec ev st s) (k_oldTarget k)) \<noteq> None"
    if "k \<in> set (ks @ issued_by st s)" for k
    using before [OF that] exec_nextTarget_mono [of s ev st]
      exec_keeps_set_promises [OF _ _ assms, of "k_oldTarget k" ev]
    by auto
  show ?thesis
    unfolding promises_kept_def
    using after exec_registry_allocated [OF reg] by blast
qed

lemma run_promises_kept:
  "promises_kept ks s \<Longrightarrow> resumes_only_issued ev ks steps s \<Longrightarrow>
   promises_kept (issued ev ks steps s) (run ev steps s)"
  unfolding run_def
proof (induction steps arbitrary: ks s)
  case Nil
  then show ?case by simp
next
  case (Cons st steps)
  have "promises_kept (ks @ issued_by st s) (exec ev st s)"
    using Cons.prems by (simp add: exec_promises_kept)
  then show ?case using Cons.IH [of "ks @ issued_by st s" "exec ev st s"] Cons.prems by simp
qed

lemma Browser_create_promises_kept: "promises_kept [] Browser_create"
  by (simp add: promises_kept_def Browser_create_def)

lemma issued_commit_old_target_holds_promise:
  assumes "resumes_only_issued ev [] steps Browser_create"
    and "k \<in> set (issued ev [] steps Browser_create)"
  shows "\<exists>q. pagePromise (targetObjs (run ev steps Browser_create) (k_oldTarget k)) = Some q"
  using run_promises_kept [OF Browser_create_promises_kept assms(1)] assms(2)
  by (auto simp: promises_kept_def)

lemma issued_mono: "set ks \<subseteq> set (issued ev ks steps s)"
proof (induction steps arbitrary: ks s)
  case Nil
  show ?case by simp
next
  case (Cons st steps)
  show ?case using Cons.IH [of "ks @ issued_by st s" "exec ev st s"] by auto
qed

lemma issued_append:
  "issued ev ks (before @ after) s = issued ev (issued ev ks before s) after (run ev before s)"
  unfolding run_def by (induction before arbitrary: ks s) simp_all

lemma notification_is_issued:
  assumes "Browser_onProvisionalTargetCommitted old new (run ev before s) = (Suspended k, s0)"
  shows "k \<in> set (issued ev ks
                     (before @ NotifyProvisionalTargetCommitted old new # after) s)"
proof -
  have "k \<in> set (issued ev ks before s @
                   issued_by (NotifyProvisionalTargetCommitted old new) (run ev before s))"
    using assms by simp
  then show ?thesis
    using issued_mono
            [of "issued ev ks before s @
                   issued_by (NotifyProvisionalTargetCommitted old new) (run ev before s)"
                ev after
                "exec ev (NotifyProvisionalTargetCommitted old new) (run ev before s)"]
    by (auto simp: issued_append)
qed

subsection \<open>The example states\<close>

text \<open>The fields of the example states, evaluated.\<close>

lemma ex_contexts_fields:
  "contexts ex_contexts = [(''ctx1'', \<lparr> ctxOid = 1, ctxId = Some ''ctx1'' \<rparr>)]"
  "defaultContext ex_contexts = \<lparr> ctxOid = 0, ctxId = None \<rparr>"
  "targets ex_contexts = []"
  "nextTarget ex_contexts = 0"
  "listeners ex_contexts = []"
  "trace ex_contexts = [ContextsSet ''ctx1'' 1]"
  by (simp_all add: ex_contexts_def Browser_createIncognitoBrowserContext_resume_def
        Browser_create_def Let_def)

lemma ex_contexts_more:
  "nextPromise ex_contexts = 0"
  "nextWaiter ex_contexts = 0"
  "nextContext ex_contexts = 2"
  "promises ex_contexts = (\<lambda>_. PagePending)"
  by (simp_all add: ex_contexts_def Browser_createIncognitoBrowserContext_resume_def
        Browser_create_def Let_def)

lemma ex_targets_fields:
  "targets ex_targets = [(''A'', 0), (''B'', 1)]"
  "targetObjs ex_targets 0 = \<lparr> info = info_A, browserContext = \<lparr> ctxOid = 1, ctxId = Some ''ctx1'' \<rparr>, pagePromise = None \<rparr>"
  "targetObjs ex_targets (Suc 0) = \<lparr> info = info_B, browserContext = \<lparr> ctxOid = 0, ctxId = None \<rparr>, pagePromise = None \<rparr>"
  "nextPromise ex_targets = 0"
  "promises ex_targets = (\<lambda>_. PagePending)"
  "listeners ex_targets = []"
  "trace ex_targets =
     [ContextsSet ''ctx1'' 1,
      TargetsSet ''A'' 0, Emit OnBrowser ''target created'' 0, Emit (OnContext 1) ''target created'' 0,
      TargetsSet ''B'' 1, Emit OnBrowser ''target created'' 1, Emit (OnContext 0) ''target created'' 1]"
  by (simp_all add: ex_targets_def Browser_onTargetCreated_def Let_def ex_contexts_fields
        ex_contexts_more info_A_def info_B_def Events_def)

lemma ex_targets_more: "nextWaiter ex_targets = 0"
  by (simp add: ex_targets_def Browser_onTargetCreated_def Let_def ex_contexts_more)

lemma ex_targets_no_page:
  "find (\<lambda>t. has_page t (targetObjs ex_targets t)) (Browser_targets ex_targets) = None"
  by (simp add: Browser_targets_def ex_targets_fields has_page_def)

lemma ex_steps_run: "run Events ex_steps Browser_create = ex_targets"
  by (simp add: run_def ex_steps_def ex_targets_def ex_contexts_def)

lemma ex_page_A_fields:
  "targets ex_page_A = [(''A'', 0), (''B'', 1)]"
  "pagePromise (targetObjs ex_page_A 0) = Some 0"
  "pagePromise (targetObjs ex_page_A (Suc 0)) = None"
  "promises ex_page_A 0 = PageFulfilled (Some 7)"
  by (simp_all add: ex_page_A_def settle_page_def Target_page_def Let_def ex_targets_fields info_A_def)

lemma ex_page_A_rejected_fields:
  "targets ex_page_A_rejected = [(''A'', 0), (''B'', Suc 0)]"
  "pagePromise (targetObjs ex_page_A_rejected 0) = Some 0"
  "pagePromise (targetObjs ex_page_A_rejected (Suc 0)) = None"
  "targetType (info (targetObjs ex_page_A_rejected (Suc 0))) = ''page''"
  "promises ex_page_A_rejected 0 = PageRejected (PageError ''boom'')"
  "nextPromise ex_page_A_rejected = Suc 0"
  by (simp_all add: ex_page_A_rejected_def settle_page_def Target_page_def Let_def
        ex_targets_fields info_A_def info_B_def)

lemma ex_chain_fields:
  "targets ex_chain = [(''X'', 0), (''A'', Suc 0), (''B'', Suc (Suc 0))]"
  "pagePromise (targetObjs ex_chain 0) = Some 0"
  "pagePromise (targetObjs ex_chain (Suc 0)) = Some (Suc 0)"
  "pagePromise (targetObjs ex_chain (Suc (Suc 0))) = None"
  "promises ex_chain 0 = PageFulfilled (Some 8)"
  "promises ex_chain (Suc 0) = PagePending"
  by (simp_all add: ex_chain_def ex_chain_steps_def run_def Browser_onTargetCreated_def
        Target_page_def settle_page_def Let_def Browser_create_def info_X_def info_A_def
        info_B_def)

lemma ex_chain_later_fields:
  "targets ex_chain_later = [(''X'', 0), (''A'', Suc 0), (''B'', Suc (Suc 0))]"
  "pagePromise (targetObjs ex_chain_later 0) = Some 0"
  "pagePromise (targetObjs ex_chain_later (Suc 0)) = Some 0"
  "pagePromise (targetObjs ex_chain_later (Suc (Suc 0))) = None"
  "promises ex_chain_later 0 = PageFulfilled (Some 8)"
  "promises ex_chain_later (Suc 0) = PageFulfilled (Some 7)"
  by (simp_all add: ex_chain_later_def run_def Browser_onProvisionalTargetCommitted_resume_def
        settle_page_def Let_def ex_chain_fields)

lemma ex_chain_done_fields:
  "fst (Browser_onProvisionalTargetCommitted_resume (CommitK (Suc 0) (Suc 0) ''B'') ex_chain_later)
     = Done ()"
  "targets ex_chain_done = [(''X'', 0), (''A'', Suc 0), (''B'', Suc (Suc 0))]"
  "pagePromise (targetObjs ex_chain_done (Suc 0)) = Some 0"
  "pagePromise (targetObjs ex_chain_done (Suc (Suc 0))) = Some 0"
  "promises ex_chain_done 0 = PageFulfilled (Some 8)"
  "promises ex_chain_done (Suc 0) = PageFulfilled (Some 7)"
  by (simp_all add: ex_chain_done_def Browser_onProvisionalTargetCommitted_resume_def Let_def
        ex_chain_later_fields)

lemma ex_waiting_call:
  "Browser_waitForTarget Events is_B (Some 50) (run Events [] Browser_create) = (Suspended 0, ex_waiting)"
  by (simp add: ex_waiting_def run_def Browser_waitForTarget_def Browser_targets_def
        Browser_create_def Let_def)

lemma ex_waiting_call_create:
  "Browser_waitForTarget Events is_B (Some 50) Browser_create = (Suspended 0, ex_waiting)"
  using ex_waiting_call by (simp add: run_def)

lemma ex_waiting_fields:
  "waiters ex_waiting 0 = \<lparr> predicate = is_B, timer = Some (''target'', 50), awaited = Pending \<rparr>"
  "listeners ex_waiting = [(''target created'', Check 0), (''target changed'', Check 0)]"
  "nextWaiter ex_waiting = 1"
  "targets ex_waiting = []"
  by (simp_all add: ex_waiting_def Browser_waitForTarget_def Browser_targets_def Browser_on_def
        waitWithTimeout_def Browser_create_def Events_def Let_def)

lemma ex_waiting_more:
  "targetObjs ex_waiting = targetObjs Browser_create"
  "nextTarget ex_waiting = 0"
  "contexts ex_waiting = []"
  "defaultContext ex_waiting = \<lparr> ctxOid = 0, ctxId = None \<rparr>"
  by (simp_all add: ex_waiting_def Browser_waitForTarget_def Browser_targets_def Browser_on_def
        waitWithTimeout_def Browser_create_def Let_def)

lemma ex_waiting_after_A:
  "awaited (waiters (run Events [NotifyTargetCreated info_A] ex_waiting) 0) = Pending"
  by (simp add: run_def Browser_onTargetCreated_def Let_def Browser_emit_def listeners_of_def
        ex_waiting_fields ex_waiting_more Events_def check_def is_B_def info_A_def)

lemma ex_waiting_forever_call:
  "Browser_waitForTarget Events is_B (Some 0) Browser_create = (Suspended 0, ex_waiting_forever)"
  by (simp add: ex_waiting_forever_def Browser_waitForTarget_def Browser_targets_def
        Browser_create_def Let_def)

lemma ex_waiting_page_fields:
  "waiters ex_waiting_page 0 =
     \<lparr> predicate = has_page, timer = Some (''target'', 30000), awaited = Pending \<rparr>"
  "listeners ex_waiting_page = [(''target created'', Check 0), (''target changed'', Check 0)]"
  "targetObjs ex_waiting_page = targetObjs ex_targets"
  "nextPromise ex_waiting_page = 0"
  by (simp_all add: ex_waiting_page_def Browser_waitForTarget_def ex_targets_no_page
        Browser_on_def waitWithTimeout_def ex_targets_fields ex_targets_more Events_def Let_def)

lemma ex_page_requested:
  "awaited (waiters (run Events [CallTargetPage 0] ex_waiting_page) 0) = Pending"
  "has_page 0 (targetObjs (run Events [CallTargetPage 0] ex_waiting_page) 0)"
  by (simp_all add: run_def Target_page_def Let_def ex_waiting_page_fields ex_targets_fields
        info_A_def has_page_def)

subsection \<open>Target created\<close>

text \<open>
  Claim C8. A targetCreated notification never fails. It registers a new Target under the
  id of the notification, and the context of that Target is the entry of the contexts map
  for the browser-context id of the notification when the id is there (not \<open>undefined\<close>
  and not empty) and the map knows it; in every other case, an unknown id among them, it is
  the default context.
\<close>

theorem C8_targetCreated_owning_context:
  "fst (Browser_onTargetCreated ev ti s) = Inr () \<and>
   map_of (targets (snd (Browser_onTargetCreated ev ti s))) (targetId ti) = Some (nextTarget s) \<and>
   browserContext (targetObjs (snd (Browser_onTargetCreated ev ti s)) (nextTarget s)) =
     (case browserContextId ti of
        None \<Rightarrow> defaultContext s
      | Some cid \<Rightarrow>
          (if cid = [] then defaultContext s
           else case map_of (contexts s) cid of
                  None \<Rightarrow> defaultContext s
                | Some c \<Rightarrow> c))"
  by (simp add: Browser_onTargetCreated_def Let_def update_conv' split: option.splits)

theorem C8_targetCreated_owning_context_witness:
  "browserContext (targetObjs (snd (Browser_onTargetCreated Events info_A ex_contexts)) 0)
     = \<lparr> ctxOid = 1, ctxId = Some ''ctx1'' \<rparr> \<and>
   browserContext (targetObjs (snd (Browser_onTargetCreated Events info_B ex_contexts)) 0)
     = \<lparr> ctxOid = 0, ctxId = None \<rparr> \<and>
   fst (Browser_onTargetCreated Events info_B ex_contexts) = Inr ()"
  using C8_targetCreated_owning_context [of Events info_A ex_contexts]
        C8_targetCreated_owning_context [of Events info_B ex_contexts]
  by (simp add: ex_contexts_fields info_A_def info_B_def)

subsection \<open>Target destroyed\<close>

text \<open>
  Claim C2, as amended. For a targetDestroyed notification with a registered id, the handler
  removes the Target from the registry first, then invokes its closed-callback, then emits
  the event on the Browser and on the owning context; it does not throw, and afterwards the
  id is not registered.
\<close>

theorem C2_targetDestroyed_order:
  assumes "map_of (targets s) tid = Some t"
  shows "fst (Browser_onTargetDestroyed ev tid s) = Inr () \<and>
     map_of (targets (snd (Browser_onTargetDestroyed ev tid s))) tid = None \<and>
     trace (snd (Browser_onTargetDestroyed ev tid s)) =
       trace s @ [TargetsDelete tid, ClosedCallback t,
                  Emit OnBrowser (Browser_TargetDestroyed ev) t,
                  Emit (OnContext (ctxOid (browserContext (targetObjs s t))))
                    (BrowserContext_TargetDestroyed ev) t]"
  using assms by (simp add: Browser_onTargetDestroyed_def Let_def delete_conv')

theorem C2_targetDestroyed_order_witness:
  "map_of (targets ex_targets) ''A'' = Some 0 \<and>
   fst (Browser_onTargetDestroyed Events ''A'' ex_targets) = Inr () \<and>
   targets (snd (Browser_onTargetDestroyed Events ''A'' ex_targets)) = [(''B'', 1)] \<and>
   trace (snd (Browser_onTargetDestroyed Events ''A'' ex_targets)) =
     trace ex_targets @ [TargetsDelete ''A'', ClosedCallback 0,
                         Emit OnBrowser ''target destroyed'' 0,
                         Emit (OnContext 1) ''target destroyed'' 0]"
proof -
  have a: "map_of (targets ex_targets) ''A'' = Some 0" by (simp add: ex_targets_fields)
  have b: "targets (snd (Browser_onTargetDestroyed Events ''A'' ex_targets)) = [(''B'', 1)]"
    by (simp add: Browser_onTargetDestroyed_def Let_def ex_targets_fields AList.delete_eq)
  show ?thesis
    using C2_targetDestroyed_order [OF a, of Events] a b
    by (simp add: ex_targets_fields Events_def)
qed

text \<open>
  Claim C2 as stated, that the closed-callback runs before the Target leaves the registry,
  fails for target A of the example: the removal is the first thing the handler does.
\<close>

theorem C2_callback_before_removal_counterexample:
  "map_of (targets ex_targets) ''A'' = Some 0 \<and>
   \<not> precedes (trace (snd (Browser_onTargetDestroyed Events ''A'' ex_targets)))
        (ClosedCallback 0) (TargetsDelete ''A'') \<and>
   precedes (trace (snd (Browser_onTargetDestroyed Events ''A'' ex_targets)))
        (TargetsDelete ''A'') (ClosedCallback 0)"
  by (simp add: Browser_onTargetDestroyed_def Let_def ex_targets_fields precedes_def Events_def)

subsection \<open>The provisional-target commit\<close>

lemma commit_resume_fulfilled:
  assumes "promises s p = PageFulfilled (Some page)"
    and "map_of (targets s) newTargetId = Some newTarget"
  shows "Browser_onProvisionalTargetCommitted_resume (CommitK oldTarget p newTargetId) s =
           (Done (),
            s\<lparr> trace := trace s @ [Session newTargetId,
                                     SwapTargetOnNavigation page newTargetId (Some newTarget)],
               targetObjs := (targetObjs s)
                 (newTarget := (targetObjs s newTarget)
                    \<lparr> pagePromise := pagePromise (targetObjs s oldTarget) \<rparr>) \<rparr>)"
  using assms
  by (simp add: Browser_onProvisionalTargetCommitted_resume_def record_action_def Let_def)

lemma page_of_targetId_materialized:
  assumes "map_of (targets s) tid = Some t" and "pagePromise (targetObjs s t) = Some p"
  shows "page_of_targetId tid s = Some (Some p, s)"
  using assms by (simp add: page_of_targetId_def Target_page_def)

lemma commit_resume_failed:
  "fst (Browser_onProvisionalTargetCommitted_resume k s) \<noteq> Done () \<Longrightarrow>
   targetObjs (snd (Browser_onProvisionalTargetCommitted_resume k s)) = targetObjs s"
  by (simp add: Browser_onProvisionalTargetCommitted_resume_def Let_def
        split: promiseState.splits option.splits)

text \<open>
  A continuation that returns leaves the registry and the promise of the old Target as they
  were, and the new Target then holds the promise the old Target holds. In a run from the
  constructor that resumes suspended continuations only, that is a promise in fact: after
  the continuation of a notified commit has returned, the old and the new Target hold one
  and the same promise.
\<close>

lemma commit_resume_done:
  assumes "Browser_onProvisionalTargetCommitted_resume k s' = (Done (), s'')"
  shows "targets s'' = targets s'"
    and "pagePromise (targetObjs s'' (k_oldTarget k)) = pagePromise (targetObjs s' (k_oldTarget k))"
    and "\<exists>newTarget. map_of (targets s'') (k_newTargetId k) = Some newTarget \<and>
           pagePromise (targetObjs s'' newTarget) = pagePromise (targetObjs s'' (k_oldTarget k))"
proof -
  obtain page newTarget where f: "promises s' (k_awaited k) = PageFulfilled (Some page)"
    and n: "map_of (targets s') (k_newTargetId k) = Some newTarget"
    using assms
    by (auto simp: Browser_onProvisionalTargetCommitted_resume_def Let_def
          split: promiseState.splits option.splits)
  have s'': "s'' = s'\<lparr> trace := trace s' @ [Session (k_newTargetId k),
                 SwapTargetOnNavigation page (k_newTargetId k) (Some newTarget)],
               targetObjs := (targetObjs s')
                 (newTarget := (targetObjs s' newTarget)
                    \<lparr> pagePromise := pagePromise (targetObjs s' (k_oldTarget k)) \<rparr>) \<rparr>"
    using commit_resume_fulfilled [OF f n, of "k_oldTarget k"] assms by simp
  show "targets s'' = targets s'" by (simp add: s'')
  show "pagePromise (targetObjs s'' (k_oldTarget k)) = pagePromise (targetObjs s' (k_oldTarget k))"
    by (simp add: s'')
  show "\<exists>newTarget. map_of (targets s'') (k_newTargetId k) = Some newTarget \<and>
           pagePromise (targetObjs s'' newTarget) = pagePromise (targetObjs s'' (k_oldTarget k))"
    using n by (auto simp: s'')
qed

lemma commit_processed_in_run:
  assumes "resumes_only_issued ev []
             (before @ NotifyProvisionalTargetCommitted old new # after) Browser_create"
    and "Browser_onProvisionalTargetCommitted old new (run ev before Browser_create) =
           (Suspended k, s0)"
    and "Browser_onProvisionalTargetCommitted_resume k
           (run ev (before @ NotifyProvisionalTargetCommitted old new # after) Browser_create) =
           (Done (), s'')"
  shows "\<exists>q newTarget.
           pagePromise (targetObjs s'' (k_oldTarget k)) = Some q \<and>
           map_of (targets s'') new = Some newTarget \<and>
           pagePromise (targetObjs s'' newTarget) = Some q"
proof -
  have new: "k_newTargetId k = new"
    using assms(2)
    by (auto simp: Browser_onProvisionalTargetCommitted_def split: option.splits)
  have "k \<in> set (issued ev []
                    (before @ NotifyProvisionalTargetCommitted old new # after) Browser_create)"
    using assms(2) by (rule notification_is_issued)
  then obtain q where "pagePromise (targetObjs
      (run ev (before @ NotifyProvisionalTargetCommitted old new # after) Browser_create)
      (k_oldTarget k)) = Some q"
    using issued_commit_old_target_holds_promise [OF assms(1)] by blast
  then show ?thesis
    using commit_resume_done(2,3) [OF assms(3)] new by auto
qed

text \<open>
  Claim C1, as amended. Let the old id be registered. If the old Target has no Page promise,
  the notification is ignored: the handler returns and the state is the same. If it holds
  the promise \<open>p\<close>, the handler waits for \<open>p\<close> without changing the state, and stays
  suspended while \<open>p\<close> is pending. When \<open>p\<close> is rejected the handler throws the
  rejection and the state is the same, and whenever the continuation does not return, no
  Target is changed. Once \<open>p\<close> is fulfilled with a Page and the new id is registered,
  the continuation returns and puts on the new Target the promise the old Target holds at
  that moment. When that is still \<open>p\<close>, \<open>page()\<close> against the new id then returns
  \<open>p\<close> and changes nothing, and \<open>p\<close> yields the Page that \<open>page()\<close> on the old
  Target yielded.
\<close>

theorem C1_commit_transplants_held_promise:
  assumes "map_of (targets s) oldTargetId = Some oldTarget"
  shows
    "(pagePromise (targetObjs s oldTarget) = None \<longrightarrow>
        Browser_onProvisionalTargetCommitted oldTargetId newTargetId s = (Done (), s)) \<and>
     (pagePromise (targetObjs s oldTarget) = Some p \<longrightarrow>
        Browser_onProvisionalTargetCommitted oldTargetId newTargetId s =
          (Suspended (CommitK oldTarget p newTargetId), s) \<and>
        (promises s' p = PagePending \<longrightarrow>
           Browser_onProvisionalTargetCommitted_resume (CommitK oldTarget p newTargetId) s' =
             (Suspended (CommitK oldTarget p newTargetId), s')) \<and>
        (promises s' p = PageRejected e \<longrightarrow>
           Browser_onProvisionalTargetCommitted_resume (CommitK oldTarget p newTargetId) s' =
             (Failed e, s')) \<and>
        (fst (Browser_onProvisionalTargetCommitted_resume (CommitK oldTarget p newTargetId) s')
           \<noteq> Done () \<longrightarrow>
           targetObjs (snd (Browser_onProvisionalTargetCommitted_resume
                              (CommitK oldTarget p newTargetId) s')) = targetObjs s') \<and>
        (promises s' p = PageFulfilled (Some page) \<and>
         map_of (targets s') newTargetId = Some newTarget \<longrightarrow>
           fst (Browser_onProvisionalTargetCommitted_resume (CommitK oldTarget p newTargetId) s')
             = Done () \<and>
           pagePromise (targetObjs
              (snd (Browser_onProvisionalTargetCommitted_resume
                      (CommitK oldTarget p newTargetId) s')) newTarget) =
             pagePromise (targetObjs s' oldTarget) \<and>
           (pagePromise (targetObjs s' oldTarget) = Some p \<longrightarrow>
              Target_page oldTarget s' = (Some p, s') \<and>
              await_page p s' = Done (Some page) \<and>
              page_of_targetId newTargetId
                 (snd (Browser_onProvisionalTargetCommitted_resume
                         (CommitK oldTarget p newTargetId) s')) =
                Some (Some p, snd (Browser_onProvisionalTargetCommitted_resume
                                     (CommitK oldTarget p newTargetId) s')) \<and>
              await_page p (snd (Browser_onProvisionalTargetCommitted_resume
                                   (CommitK oldTarget p newTargetId) s')) = Done (Some page))))"
proof -
  let ?k = "CommitK oldTarget p newTargetId"
  have start_none: "pagePromise (targetObjs s oldTarget) = None \<Longrightarrow>
      Browser_onProvisionalTargetCommitted oldTargetId newTargetId s = (Done (), s)"
    using assms by (simp add: Browser_onProvisionalTargetCommitted_def)
  have start_some: "pagePromise (targetObjs s oldTarget) = Some p \<Longrightarrow>
      Browser_onProvisionalTargetCommitted oldTargetId newTargetId s = (Suspended ?k, s)"
    using assms by (simp add: Browser_onProvisionalTargetCommitted_def)
  have pending: "promises s' p = PagePending \<Longrightarrow>
      Browser_onProvisionalTargetCommitted_resume ?k s' = (Suspended ?k, s')"
    by (simp add: Browser_onProvisionalTargetCommitted_resume_def)
  have rejected: "promises s' p = PageRejected e \<Longrightarrow>
      Browser_onProvisionalTargetCommitted_resume ?k s' = (Failed e, s')"
    by (simp add: Browser_onProvisionalTargetCommitted_resume_def)
  have failed: "fst (Browser_onProvisionalTargetCommitted_resume ?k s') \<noteq> Done () \<Longrightarrow>
      targetObjs (snd (Browser_onProvisionalTargetCommitted_resume ?k s')) = targetObjs s'"
    by (rule commit_resume_failed)
  have resumed:
    "fst (Browser_onProvisionalTargetCommitted_resume ?k s') = Done () \<and>
     pagePromise (targetObjs (snd (Browser_onProvisionalTargetCommitted_resume ?k s')) newTarget) =
       pagePromise (targetObjs s' oldTarget) \<and>
     (pagePromise (targetObjs s' oldTarget) = Some p \<longrightarrow>
        Target_page oldTarget s' = (Some p, s') \<and>
        await_page p s' = Done (Some page) \<and>
        page_of_targetId newTargetId (snd (Browser_onProvisionalTargetCommitted_resume ?k s')) =
          Some (Some p, snd (Browser_onProvisionalTargetCommitted_resume ?k s')) \<and>
        await_page p (snd (Browser_onProvisionalTargetCommitted_resume ?k s')) = Done (Some page))"
    if f: "promises s' p = PageFulfilled (Some page)"
      and n: "map_of (targets s') newTargetId = Some newTarget"
  proof -
    note r = commit_resume_fulfilled [OF f n, of oldTarget]
    have held: "Target_page oldTarget s' = (Some p, s') \<and>
        await_page p s' = Done (Some page) \<and>
        page_of_targetId newTargetId (snd (Browser_onProvisionalTargetCommitted_resume ?k s')) =
          Some (Some p, snd (Browser_onProvisionalTargetCommitted_resume ?k s')) \<and>
        await_page p (snd (Browser_onProvisionalTargetCommitted_resume ?k s')) = Done (Some page)"
      if o: "pagePromise (targetObjs s' oldTarget) = Some p"
    proof -
      have "page_of_targetId newTargetId (snd (Browser_onProvisionalTargetCommitted_resume ?k s')) =
          Some (Some p, snd (Browser_onProvisionalTargetCommitted_resume ?k s'))"
        by (rule page_of_targetId_materialized [where t = newTarget]) (simp_all add: r n o)
      then show ?thesis using f o by (simp add: r await_page_def Target_page_def)
    qed
    show ?thesis using held by (simp add: r)
  qed
  show ?thesis using start_none start_some pending rejected failed resumed by blast
qed

theorem C1_commit_transplants_held_promise_witness:
  "map_of (targets ex_targets) ''A'' = Some 0 \<and>
   pagePromise (targetObjs ex_targets 0) = None \<and>
   Browser_onProvisionalTargetCommitted ''A'' ''B'' ex_targets = (Done (), ex_targets) \<and>
   map_of (targets ex_page_A) ''A'' = Some 0 \<and>
   pagePromise (targetObjs ex_page_A 0) = Some 0 \<and>
   promises ex_page_A 0 = PageFulfilled (Some 7) \<and>
   map_of (targets ex_page_A) ''B'' = Some (Suc 0) \<and>
   Browser_onProvisionalTargetCommitted ''A'' ''B'' ex_page_A =
     (Suspended (CommitK 0 0 ''B''), ex_page_A) \<and>
   Target_page 0 ex_page_A = (Some 0, ex_page_A) \<and>
   await_page 0 ex_page_A = Done (Some 7) \<and>
   page_of_targetId ''B''
     (snd (Browser_onProvisionalTargetCommitted_resume (CommitK 0 0 ''B'') ex_page_A)) =
     Some (Some 0, snd (Browser_onProvisionalTargetCommitted_resume (CommitK 0 0 ''B'') ex_page_A)) \<and>
   await_page 0
     (snd (Browser_onProvisionalTargetCommitted_resume (CommitK 0 0 ''B'') ex_page_A)) =
     Done (Some 7) \<and>
   promises ex_page_A_rejected 0 = PageRejected (PageError ''boom'') \<and>
   Browser_onProvisionalTargetCommitted_resume (CommitK 0 0 ''B'') ex_page_A_rejected =
     (Failed (PageError ''boom''), ex_page_A_rejected)"
proof -
  have a: "map_of (targets ex_targets) ''A'' = Some 0" by (simp add: ex_targets_fields)
  have b: "map_of (targets ex_page_A) ''A'' = Some 0" by (simp add: ex_page_A_fields)
  have c: "map_of (targets ex_page_A_rejected) ''A'' = Some 0"
    by (simp add: ex_page_A_rejected_fields)
  show ?thesis
    using C1_commit_transplants_held_promise
            [OF a, where p = 0 and newTargetId = "''B''" and s' = ex_targets and page = 7
               and newTarget = "Suc 0" and e = "PageError ''boom''"]
          C1_commit_transplants_held_promise
            [OF b, where p = 0 and newTargetId = "''B''" and s' = ex_page_A and page = 7
               and newTarget = "Suc 0" and e = "PageError ''boom''"]
          C1_commit_transplants_held_promise
            [OF c, where p = 0 and newTargetId = "''B''" and s' = ex_page_A_rejected
               and page = 7 and newTarget = "Suc 0" and e = "PageError ''boom''"]
    by (simp add: ex_targets_fields ex_page_A_fields ex_page_A_rejected_fields)
qed

text \<open>
  Claim C1 as stated, that the handler puts the promise of the old Target on the new Target
  whenever the old Target has one, pending or settled, fails twice. With the promise of A
  rejected, the handler throws at its \<open>await\<close>: B holds no promise afterwards, and
  \<open>page()\<close> on B makes a new one. In the chain of two commits, A holds promise 1 when
  the commit from A to B is notified; the continuation of the commit from X to A puts
  promise 0 on A before promise 1 is fulfilled, and the continuation of the commit from A
  to B, which reads the field of A again, returns with promise 0 on B: \<open>page()\<close> on B
  yields Page 8, not the Page 7 of promise 1.
\<close>

theorem C1_same_promise_counterexample:
  "map_of (targets ex_page_A_rejected) ''A'' = Some 0 \<and>
   map_of (targets ex_page_A_rejected) ''B'' = Some (Suc 0) \<and>
   pagePromise (targetObjs ex_page_A_rejected 0) = Some 0 \<and>
   promises ex_page_A_rejected 0 = PageRejected (PageError ''boom'') \<and>
   Browser_onProvisionalTargetCommitted ''A'' ''B'' ex_page_A_rejected =
     (Suspended (CommitK 0 0 ''B''), ex_page_A_rejected) \<and>
   Browser_onProvisionalTargetCommitted_resume (CommitK 0 0 ''B'') ex_page_A_rejected =
     (Failed (PageError ''boom''), ex_page_A_rejected) \<and>
   pagePromise (targetObjs ex_page_A_rejected (Suc 0)) = None \<and>
   fst (Target_page (Suc 0) ex_page_A_rejected) = Some (Suc 0) \<and>
   map_of (targets ex_chain) ''A'' = Some (Suc 0) \<and>
   map_of (targets ex_chain) ''B'' = Some (Suc (Suc 0)) \<and>
   pagePromise (targetObjs ex_chain (Suc 0)) = Some (Suc 0) \<and>
   Browser_onProvisionalTargetCommitted ''X'' ''A'' ex_chain =
     (Suspended (CommitK 0 0 ''A''), ex_chain) \<and>
   Browser_onProvisionalTargetCommitted ''A'' ''B'' ex_chain =
     (Suspended (CommitK (Suc 0) (Suc 0) ''B''), ex_chain) \<and>
   await_page (Suc 0) ex_chain_later = Done (Some 7) \<and>
   Browser_onProvisionalTargetCommitted_resume (CommitK (Suc 0) (Suc 0) ''B'') ex_chain_later =
     (Done (), ex_chain_done) \<and>
   pagePromise (targetObjs ex_chain_done (Suc (Suc 0))) = Some 0 \<and>
   page_of_targetId ''B'' ex_chain_done = Some (Some 0, ex_chain_done) \<and>
   await_page 0 ex_chain_done = Done (Some 8)"
proof -
  have r: "Browser_onProvisionalTargetCommitted_resume (CommitK (Suc 0) (Suc 0) ''B'')
             ex_chain_later = (Done (), ex_chain_done)"
    using ex_chain_done_fields(1) by (simp add: ex_chain_done_def prod_eq_iff)
  have p: "page_of_targetId ''B'' ex_chain_done = Some (Some 0, ex_chain_done)"
    by (rule page_of_targetId_materialized [where t = "Suc (Suc 0)"])
       (simp_all add: ex_chain_done_fields)
  show ?thesis
    using r p
    by (simp add: ex_page_A_rejected_fields ex_chain_fields ex_chain_later_fields
          ex_chain_done_fields Browser_onProvisionalTargetCommitted_def
          Browser_onProvisionalTargetCommitted_resume_def Target_page_def await_page_def)
qed



subsection \<open>Creating contexts and pages\<close>

text \<open>
  Claim C3. When the create-page command resolves with a target id the registry does not
  hold, the operation fails with the TypeError of reading \<open>page\<close> from the
  \<open>undefined\<close> lookup result, and the state is as it was. \<open>newPage\<close> of the Browser
  and of a context run the same continuation.
\<close>

theorem C3_createPage_unregistered_target:
  assumes "map_of (targets s) tid = None"
  shows "Browser_createPageInContext_resume (Inr tid) s = (Failed TypeError, s)"
  using assms by (simp add: Browser_createPageInContext_resume_def)

theorem C3_createPage_unregistered_target_witness:
  "map_of (targets ex_targets) ''C'' = None \<and>
   Browser_createPageInContext_resume (Inr ''C'') ex_targets = (Failed TypeError, ex_targets)"
proof -
  have a: "map_of (targets ex_targets) ''C'' = None" by (simp add: ex_targets_fields)
  show ?thesis using C3_createPage_unregistered_target [OF a] a by simp
qed

text \<open>
  Claim C7. When the create-context command fails, the caller gets that very error and the
  state is as it was, the contexts map included. When it succeeds with an id, the caller
  gets a new BrowserContext with that id, the contexts map holds it under the id, and every
  other entry of the map and the target registry are as before. Sending the command does
  not touch the contexts map either.
\<close>

theorem C7_createIncognitoBrowserContext_atomic:
  "Browser_createIncognitoBrowserContext_resume (Inl e) s = (Inl e, s) \<and>
   contexts (Browser_createIncognitoBrowserContext s) = contexts s \<and>
   fst (Browser_createIncognitoBrowserContext_resume (Inr cid) s) =
     Inr \<lparr> ctxOid = nextContext s, ctxId = Some cid \<rparr> \<and>
   map_of (contexts (snd (Browser_createIncognitoBrowserContext_resume (Inr cid) s))) cid =
     Some \<lparr> ctxOid = nextContext s, ctxId = Some cid \<rparr> \<and>
   (\<forall>k. k \<noteq> cid \<longrightarrow>
      map_of (contexts (snd (Browser_createIncognitoBrowserContext_resume (Inr cid) s))) k =
      map_of (contexts s) k) \<and>
   targets (snd (Browser_createIncognitoBrowserContext_resume (Inr cid) s)) = targets s"
  by (simp add: Browser_createIncognitoBrowserContext_resume_def
        Browser_createIncognitoBrowserContext_def Let_def update_conv')

theorem C7_createIncognitoBrowserContext_atomic_witness:
  "Browser_createIncognitoBrowserContext_resume (Inl (ProtocolError ''no context'')) ex_contexts =
     (Inl (ProtocolError ''no context''), ex_contexts) \<and>
   fst (Browser_createIncognitoBrowserContext_resume (Inr ''ctx2'') ex_contexts) =
     Inr \<lparr> ctxOid = 2, ctxId = Some ''ctx2'' \<rparr> \<and>
   map_of (contexts (snd (Browser_createIncognitoBrowserContext_resume (Inr ''ctx2'') ex_contexts)))
     ''ctx2'' = Some \<lparr> ctxOid = 2, ctxId = Some ''ctx2'' \<rparr> \<and>
   map_of (contexts (snd (Browser_createIncognitoBrowserContext_resume (Inr ''ctx2'') ex_contexts)))
     ''ctx1'' = Some \<lparr> ctxOid = 1, ctxId = Some ''ctx1'' \<rparr>"
  using C7_createIncognitoBrowserContext_atomic
          [of "ProtocolError ''no context''" ex_contexts "''ctx2''"]
  by (simp add: ex_contexts_fields ex_contexts_more)

text \<open>
  Claim C9. \<open>close()\<close> on a context whose id is absent or empty fails with the assertion
  error and leaves the state as it was: no command is sent and no registry changes. The
  default context of a Browser is such a context in every reachable state. On a context
  with a non-empty id, \<open>close()\<close> is \<open>_disposeContext\<close> with that id, which sends the
  delete-context command; its continuation removes the context from the contexts map.
\<close>

theorem C9_close_default_context:
  "(\<not> truthy (ctxId c) \<longrightarrow>
      BrowserContext_close c s =
        (Failed (AssertionError ''Non-incognito profiles cannot be closed!''), s)) \<and>
   BrowserContext_close (defaultContext (run ev steps Browser_create)) s =
     (Failed (AssertionError ''Non-incognito profiles cannot be closed!''), s) \<and>
   (truthy (ctxId c) \<longrightarrow>
      BrowserContext_close c s = (Suspended (ctxId c), Browser_disposeContext (ctxId c) s) \<and>
      trace (Browser_disposeContext (ctxId c) s) =
        trace s @ [Send ''Browser.deleteContext'' (ctxId c)] \<and>
      contexts (Browser_disposeContext (ctxId c) s) = contexts s \<and>
      (\<forall>cid. ctxId c = Some cid \<longrightarrow>
         fst (Browser_disposeContext_resume (ctxId c) (Inr ()) s) = Inr () \<and>
         map_of (contexts (snd (Browser_disposeContext_resume (ctxId c) (Inr ()) s))) cid = None))"
proof -
  have "ctxId (defaultContext (run ev steps Browser_create)) = None"
    by (simp add: run_defaultContext Browser_create_def)
  then show ?thesis
    by (auto simp: BrowserContext_close_def assert_def Browser_disposeContext_def
          Browser_disposeContext_resume_def delete_conv')
qed

theorem C9_close_default_context_witness:
  "\<not> truthy (ctxId (defaultContext ex_contexts)) \<and>
   BrowserContext_close (defaultContext ex_contexts) ex_contexts =
     (Failed (AssertionError ''Non-incognito profiles cannot be closed!''), ex_contexts) \<and>
   truthy (ctxId \<lparr> ctxOid = 1, ctxId = Some ''ctx1'' \<rparr>) \<and>
   fst (BrowserContext_close \<lparr> ctxOid = 1, ctxId = Some ''ctx1'' \<rparr> ex_contexts) =
     Suspended (Some ''ctx1'') \<and>
   trace (snd (BrowserContext_close \<lparr> ctxOid = 1, ctxId = Some ''ctx1'' \<rparr> ex_contexts)) =
     [ContextsSet ''ctx1'' 1, Send ''Browser.deleteContext'' (Some ''ctx1'')] \<and>
   contexts (snd (Browser_disposeContext_resume (Some ''ctx1'') (Inr ()) ex_contexts)) = []"
proof -
  have a: "contexts (snd (Browser_disposeContext_resume (Some ''ctx1'') (Inr ()) ex_contexts)) = []"
    by (simp add: Browser_disposeContext_resume_def ex_contexts_fields AList.delete_eq)
  show ?thesis
    using C9_close_default_context [of "defaultContext ex_contexts" ex_contexts Events "[]"]
          C9_close_default_context [of "\<lparr> ctxOid = 1, ctxId = Some ''ctx1'' \<rparr>" ex_contexts Events "[]"]
          a
    by (simp add: ex_contexts_fields)
qed

subsection \<open>Waiting for a target\<close>

text \<open>
  Claim C5. A call without a timeout option is the call with 30000. A call that finds a
  matching target returns it at once, whatever the timeout. A call with timeout 0 that has
  to wait arms no timer: whatever happens afterwards, timers expiring among it, the promise
  it awaits is never rejected and the call never throws. A call with a bound above 0 that
  has to wait and is still waiting when its timer expires is rejected with the TimeoutError
  of the task "target" and that bound, which the call throws. The helper
  \<open>waitWithTimeout\<close> is modelled from the spec, and the expiry of a timer is an event.
\<close>

theorem C5_waitForTarget_timeout:
  "Browser_waitForTarget ev P None s = Browser_waitForTarget ev P (Some 30000) s \<and>
   (find (\<lambda>t. P t (targetObjs s t)) (Browser_targets s) = Some t \<longrightarrow>
      Browser_waitForTarget ev P topt s = (Done t, s)) \<and>
   (Browser_waitForTarget ev P (Some 0) s = (Suspended w, s0) \<longrightarrow>
      timer (waiters s0 w) = None \<and>
      (\<forall>e. awaited (waiters (run ev steps s0) w) \<noteq> Rejected e) \<and>
      (\<forall>e. fst (Browser_waitForTarget_resume ev w (run ev steps s0)) \<noteq> Failed e)) \<and>
   (0 < bound \<and> Browser_waitForTarget ev P (Some bound) s = (Suspended w, s1) \<and>
    awaited (waiters (run ev steps s1) w) = Pending \<longrightarrow>
      awaited (waiters (timer_expires w (run ev steps s1)) w) =
        Rejected (TimeoutError ''target'' bound) \<and>
      Browser_waitForTarget_resume ev w (timer_expires w (run ev steps s1)) =
        (Failed (TimeoutError ''target'' bound),
         waitForTarget_finally ev w (timer_expires w (run ev steps s1))))"
proof -
  have default: "Browser_waitForTarget ev P None s = Browser_waitForTarget ev P (Some 30000) s"
    by (simp add: Browser_waitForTarget_def)
  have zero: "timer (waiters s0 w) = None \<and>
      (\<forall>e. awaited (waiters (run ev steps s0) w) \<noteq> Rejected e) \<and>
      (\<forall>e. fst (Browser_waitForTarget_resume ev w (run ev steps s0)) \<noteq> Failed e)"
    if call: "Browser_waitForTarget ev P (Some 0) s = (Suspended w, s0)"
  proof -
    have t: "timer (waiters s0 w) = None"
      using waitForTarget_suspended(5) [OF call] by simp
    have never: "awaited (waiters (run ev steps s0) w) \<noteq> Rejected e" for e
      using run_waiter_fixed(3) [OF call, of steps e] t by auto
    have "fst (Browser_waitForTarget_resume ev w (run ev steps s0)) \<noteq> Failed e" for e
      using never by (simp add: Browser_waitForTarget_resume_def split: waitState.splits)
    then show ?thesis using t never by blast
  qed
  have positive: "awaited (waiters (timer_expires w (run ev steps s1)) w) =
        Rejected (TimeoutError ''target'' bound) \<and>
      Browser_waitForTarget_resume ev w (timer_expires w (run ev steps s1)) =
        (Failed (TimeoutError ''target'' bound),
         waitForTarget_finally ev w (timer_expires w (run ev steps s1)))"
    if b: "0 < bound" and call: "Browser_waitForTarget ev P (Some bound) s = (Suspended w, s1)"
      and waiting: "awaited (waiters (run ev steps s1) w) = Pending"
  proof -
    have "timer (waiters s1 w) = Some (''target'', bound)"
      using waitForTarget_suspended(5) [OF call] b by simp
    then have t: "timer (waiters (run ev steps s1) w) = Some (''target'', bound)"
      using run_waiter_fixed(2) [OF call, of steps] by simp
    have r: "awaited (waiters (timer_expires w (run ev steps s1)) w) =
        Rejected (TimeoutError ''target'' bound)"
      using t waiting by (simp add: timer_expires_def)
    then show ?thesis by (simp add: Browser_waitForTarget_resume_def)
  qed
  show ?thesis using default waitForTarget_existing [of P s t ev topt] zero positive by blast
qed

theorem C5_waitForTarget_timeout_witness:
  "find (\<lambda>t. is_B t (targetObjs ex_targets t)) (Browser_targets ex_targets) = Some (Suc 0) \<and>
   Browser_waitForTarget Events is_B None ex_targets = (Done (Suc 0), ex_targets) \<and>
   Browser_waitForTarget Events is_B (Some 0) Browser_create = (Suspended 0, ex_waiting_forever) \<and>
   fst (Browser_waitForTarget_resume Events 0
          (run Events [TimerExpires 0, NotifyTargetCreated info_A] ex_waiting_forever)) =
     Suspended 0 \<and>
   (0::int) < 50 \<and>
   Browser_waitForTarget Events is_B (Some 50) Browser_create = (Suspended 0, ex_waiting) \<and>
   awaited (waiters (run Events [NotifyTargetCreated info_A] ex_waiting) 0) = Pending \<and>
   fst (Browser_waitForTarget_resume Events 0
          (timer_expires 0 (run Events [NotifyTargetCreated info_A] ex_waiting))) =
     Failed (TimeoutError ''target'' 50)"
proof -
  have a: "find (\<lambda>t. is_B t (targetObjs ex_targets t)) (Browser_targets ex_targets) = Some (Suc 0)"
    by (simp add: Browser_targets_def ex_targets_fields is_B_def info_A_def info_B_def)
  have b: "awaited (waiters (run Events [TimerExpires 0, NotifyTargetCreated info_A]
                               ex_waiting_forever) 0) = Pending"
    by (simp add: run_def Browser_onTargetCreated_def Let_def Browser_emit_def listeners_of_def
          timer_expires_def ex_waiting_forever_def Browser_waitForTarget_def Browser_targets_def
          Browser_on_def Browser_create_def Events_def check_def is_B_def info_A_def)
  have c: "fst (Browser_waitForTarget_resume Events 0
          (run Events [TimerExpires 0, NotifyTargetCreated info_A] ex_waiting_forever)) =
     Suspended 0"
    using b by (simp add: Browser_waitForTarget_resume_def)
  have d: "Browser_waitForTarget Events is_B None ex_targets = (Done (Suc 0), ex_targets)"
    using C5_waitForTarget_timeout
            [where ev = Events and P = is_B and s = ex_targets and t = "Suc 0" and topt = None
               and w = 0 and bound = 50 and ?s0.0 = ex_waiting_forever and ?s1.0 = ex_waiting
               and steps = "[]"] a
    by blast
  have e: "fst (Browser_waitForTarget_resume Events 0
          (timer_expires 0 (run Events [NotifyTargetCreated info_A] ex_waiting))) =
     Failed (TimeoutError ''target'' 50)"
    using C5_waitForTarget_timeout
            [where ev = Events and P = is_B and s = Browser_create and w = 0
               and ?s0.0 = ex_waiting_forever and ?s1.0 = ex_waiting and bound = 50
               and steps = "[NotifyTargetCreated info_A]" and t = 0 and topt = None]
          ex_waiting_call_create ex_waiting_after_A
    by simp
  show ?thesis
    using a c d e ex_waiting_forever_call ex_waiting_call_create ex_waiting_after_A by simp
qed

text \<open>
  What the target-changed handler does to a call depends on the table alone: a call that
  has no listener under the name \<open>Events.BrowserContext.TargetChanged\<close> is not touched.
\<close>

lemma onTargetChanged_not_subscribed:
  assumes "(BrowserContext_TargetChanged ev, Check w) \<notin> set (listeners s)"
  shows "waiters (snd (Browser_onTargetChanged ev t s)) w = waiters s w"
proof -
  have "Check w \<notin> set (listeners_of (BrowserContext_TargetChanged ev) s)"
    using assms by (auto simp: listeners_of_def)
  then show ?thesis
    using fold_call_listener_other
            [of w "listeners_of (BrowserContext_TargetChanged ev) s"
                t "record_action (Emit OnBrowser (BrowserContext_TargetChanged ev) t) s"]
    by (simp add: Browser_onTargetChanged_def Browser_emit_def Let_def)
qed

text \<open>
  Claim C4. Let a \<open>waitForTarget\<close> call with predicate \<open>P\<close> be made in a reachable
  state that holds no matching target. The call suspends, with its listener appended under
  the names of the Browser's "target created" and "target changed" events. Take any later
  state in which the call is still waiting. An emission on the Browser under either name
  with a target that satisfies \<open>P\<close> resolves the awaited promise with that target, and
  the call then returns it; an emission with a target that does not satisfy \<open>P\<close> leaves
  the call waiting. A targetCreated notification whose new Target satisfies \<open>P\<close>
  resolves the wait with the new Target. The target-changed handler of the Browser emits
  under the name \<open>Events.BrowserContext.TargetChanged\<close>: it resolves the wait, with a
  target that satisfies \<open>P\<close>, when the table \<open>Events\<close> gives that name to the
  Browser's "target changed" or "target created" event as well.
\<close>

theorem C4_waitForTarget_created_and_changed:
  assumes "find (\<lambda>t. P t (targetObjs (run ev before Browser_create) t))
             (Browser_targets (run ev before Browser_create)) = None"
    and "Browser_waitForTarget ev P topt (run ev before Browser_create) = (r, s1)"
    and "w = nextWaiter (run ev before Browser_create)"
    and "s2 = run ev after s1"
    and "awaited (waiters s2 w) = Pending"
  shows
    "r = Suspended w \<and>
     listeners s1 = listeners (run ev before Browser_create) @
       [(Browser_TargetCreated ev, Check w), (Browser_TargetChanged ev, Check w)] \<and>
     (P t (targetObjs s2 t) \<longrightarrow>
        awaited (waiters (Browser_emit (Browser_TargetCreated ev) t s2) w) = Resolved t \<and>
        awaited (waiters (Browser_emit (Browser_TargetChanged ev) t s2) w) = Resolved t \<and>
        fst (Browser_waitForTarget_resume ev w (Browser_emit (Browser_TargetCreated ev) t s2))
          = Done t \<and>
        fst (Browser_waitForTarget_resume ev w (Browser_emit (Browser_TargetChanged ev) t s2))
          = Done t) \<and>
     (\<not> P t (targetObjs s2 t) \<longrightarrow>
        awaited (waiters (Browser_emit name t s2) w) = Pending) \<and>
     (P (nextTarget s2) (targetObjs (snd (Browser_onTargetCreated ev ti s2)) (nextTarget s2)) \<longrightarrow>
        awaited (waiters (snd (Browser_onTargetCreated ev ti s2)) w) = Resolved (nextTarget s2) \<and>
        fst (Browser_waitForTarget_resume ev w (snd (Browser_onTargetCreated ev ti s2)))
          = Done (nextTarget s2)) \<and>
     (P t (targetObjs s2 t) \<and>
      (BrowserContext_TargetChanged ev = Browser_TargetChanged ev \<or>
       BrowserContext_TargetChanged ev = Browser_TargetCreated ev) \<longrightarrow>
        awaited (waiters (snd (Browser_onTargetChanged ev t s2)) w) = Resolved t \<and>
        fst (Browser_waitForTarget_resume ev w (snd (Browser_onTargetChanged ev t s2))) = Done t)"
proof -
  have r: "r = Suspended w"
    using waitForTarget_no_match
            [where P = P and s = "run ev before Browser_create" and ev = ev and topt = topt]
          assms(1,2,3)
    by simp
  then have call: "Browser_waitForTarget ev P topt (run ev before Browser_create) = (Suspended w, s1)"
    using assms(2) by simp
  note facts = waitForTarget_suspended [OF call]
  have wf: "listeners_wf (run ev before Browser_create)"
    using Browser_create_listeners_wf by (rule run_listeners_wf)
  have "wait_inv ev w s1" using wf call by (rule waitForTarget_wait_inv)
  then have inv: "wait_inv ev w s2" unfolding assms(4) by (rule run_wait_inv)
  have created: "(Browser_TargetCreated ev, Check w) \<in> set (listeners s2)"
    and changed: "(Browser_TargetChanged ev, Check w) \<in> set (listeners s2)"
    using waiting_is_subscribed [OF inv assms(5)] by simp_all
  have pred: "predicate (waiters s2 w) = P"
    unfolding assms(4) by (rule run_waiter_fixed(1) [OF call])
  have returns: "awaited (waiters s w) = Resolved x \<Longrightarrow>
      fst (Browser_waitForTarget_resume ev w s) = Done x" for s x
    by (simp add: Browser_waitForTarget_resume_def)
  have emits: "awaited (waiters (Browser_emit n t s2) w) = Resolved t"
    if "P t (targetObjs s2 t)" and "(n, Check w) \<in> set (listeners s2)" for n
    using Browser_emit_resolves [OF that(2) _ assms(5)] that(1) pred by simp
  have unmatched: "awaited (waiters (Browser_emit name t s2) w) = Pending"
    if "\<not> P t (targetObjs s2 t)"
    using Browser_emit_unmatched [of s2 w t name] that pred assms(5) by simp
  have notified: "awaited (waiters (snd (Browser_onTargetCreated ev ti s2)) w) =
      Resolved (nextTarget s2)"
    if "P (nextTarget s2) (targetObjs (snd (Browser_onTargetCreated ev ti s2)) (nextTarget s2))"
    using onTargetCreated_resolves [OF created assms(5)] that pred by simp
  have handler: "awaited (waiters (snd (Browser_onTargetChanged ev t s2)) w) = Resolved t"
    if "P t (targetObjs s2 t)"
      and "BrowserContext_TargetChanged ev = Browser_TargetChanged ev \<or>
           BrowserContext_TargetChanged ev = Browser_TargetCreated ev"
  proof -
    have "(BrowserContext_TargetChanged ev, Check w) \<in> set (listeners s2)"
      using that(2) created changed by auto
    then show ?thesis
      using onTargetChanged_resolves [OF _ assms(5)] that(1) pred by simp
  qed
  show ?thesis
    using r facts(6) emits [OF _ created] emits [OF _ changed] unmatched notified handler
      returns
    by (intro conjI impI) simp_all
qed

theorem C4_waitForTarget_created_and_changed_witness:
  "find (\<lambda>t. has_page t (targetObjs (run Events ex_steps Browser_create) t))
     (Browser_targets (run Events ex_steps Browser_create)) = None \<and>
   Browser_waitForTarget Events has_page None (run Events ex_steps Browser_create) =
     (Suspended 0, ex_waiting_page) \<and>
   nextWaiter (run Events ex_steps Browser_create) = 0 \<and>
   awaited (waiters (run Events [CallTargetPage 0] ex_waiting_page) 0) = Pending \<and>
   has_page 0 (targetObjs (run Events [CallTargetPage 0] ex_waiting_page) 0) \<and>
   BrowserContext_TargetChanged Events = Browser_TargetChanged Events \<and>
   listeners ex_waiting_page = [(''target created'', Check 0), (''target changed'', Check 0)] \<and>
   fst (Browser_waitForTarget_resume Events 0
          (snd (Browser_onTargetChanged Events 0 (run Events [CallTargetPage 0] ex_waiting_page))))
     = Done 0"
proof -
  have a: "find (\<lambda>t. has_page t (targetObjs (run Events ex_steps Browser_create) t))
     (Browser_targets (run Events ex_steps Browser_create)) = None"
    by (simp add: ex_steps_run ex_targets_no_page)
  have b: "Browser_waitForTarget Events has_page None (run Events ex_steps Browser_create) =
     (Suspended 0, ex_waiting_page)"
    by (simp add: ex_steps_run ex_waiting_page_def Browser_waitForTarget_def ex_targets_no_page
          ex_targets_more Let_def)
  have c: "0 = nextWaiter (run Events ex_steps Browser_create)"
    by (simp add: ex_steps_run ex_targets_more)
  have d: "BrowserContext_TargetChanged Events = Browser_TargetChanged Events"
    by (simp add: Events_def)
  show ?thesis
    using C4_waitForTarget_created_and_changed
            [OF a b c refl ex_page_requested(1), where t = 0 and name = "[]" and ti = info_A]
          a b c d ex_page_requested
    by (simp add: ex_waiting_page_fields)
qed

text \<open>
  Claim C6. A \<open>waitForTarget\<close> call made in any reachable state that found no matching
  target has registered its listener under both event names. Whatever happens afterwards,
  once the promise it awaits is settled, by a target or by a rejection, the continuation
  returns or throws, and after it no listener of that call is registered under any name.
\<close>

theorem C6_waitForTarget_removes_listeners:
  assumes "Browser_waitForTarget ev P topt (run ev before Browser_create) = (Suspended w, s1)"
    and "awaited (waiters (run ev after s1) w) \<noteq> Pending"
  shows "(Browser_TargetCreated ev, Check w) \<in> set (listeners s1) \<and>
         (Browser_TargetChanged ev, Check w) \<in> set (listeners s1) \<and>
         ((\<exists>t. Browser_waitForTarget_resume ev w (run ev after s1) =
                 (Done t, waitForTarget_finally ev w (run ev after s1))) \<or>
          (\<exists>e. Browser_waitForTarget_resume ev w (run ev after s1) =
                 (Failed e, waitForTarget_finally ev w (run ev after s1)))) \<and>
         (\<forall>n. (n, Check w) \<notin>
                set (listeners (snd (Browser_waitForTarget_resume ev w (run ev after s1)))))"
proof -
  have wf: "listeners_wf (run ev before Browser_create)"
    using Browser_create_listeners_wf by (rule run_listeners_wf)
  have inv1: "wait_inv ev w s1"
    using wf assms(1) by (rule waitForTarget_wait_inv)
  have inv2: "wait_inv ev w (run ev after s1)"
    using inv1 by (rule run_wait_inv)
  have sub: "(Browser_TargetCreated ev, Check w) \<in> set (listeners s1) \<and>
         (Browser_TargetChanged ev, Check w) \<in> set (listeners s1)"
    using waitForTarget_suspended(6) [OF assms(1)] by simp
  have out: "(\<exists>t. Browser_waitForTarget_resume ev w (run ev after s1) =
                 (Done t, waitForTarget_finally ev w (run ev after s1))) \<or>
          (\<exists>e. Browser_waitForTarget_resume ev w (run ev after s1) =
                 (Failed e, waitForTarget_finally ev w (run ev after s1)))"
    using assms(2) by (cases "awaited (waiters (run ev after s1) w)")
      (simp_all add: Browser_waitForTarget_resume_def)
  show ?thesis
    using sub out resume_settled_unsubscribes [OF inv2 assms(2)] by blast
qed

theorem C6_waitForTarget_removes_listeners_witness:
  "Browser_waitForTarget Events is_B (Some 50) (run Events [] Browser_create) = (Suspended 0, ex_waiting) \<and>
   awaited (waiters (run Events [TimerExpires 0] ex_waiting) 0) \<noteq> Pending \<and>
   listeners ex_waiting = [(''target created'', Check 0), (''target changed'', Check 0)] \<and>
   (\<forall>n. (n, Check 0) \<notin>
      set (listeners (snd (Browser_waitForTarget_resume Events 0 (run Events [TimerExpires 0] ex_waiting)))))"
proof -
  have a: "awaited (waiters (run Events [TimerExpires 0] ex_waiting) 0) \<noteq> Pending"
    by (simp add: run_def timer_expires_def ex_waiting_fields)
  show ?thesis
    using C6_waitForTarget_removes_listeners [OF ex_waiting_call a] ex_waiting_call a
    by (simp add: ex_waiting_fields)
qed

end
